theory Spec2Isabelle
  imports Main "HOL-Library.Sublist" "HOL-Library.AList" "HOL-Library.Char_ord"
    "HOL-Library.List_Lexorder" "HOL-Library.Multiset"
begin

section \<open>Text\<close>

text \<open>
  A Python \<open>str\<close> is modelled as a \<open>string\<close>: a \<open>char\<close> stands for one code point
  below 256 (ASCII and Latin-1), so the model covers the texts whose code points are all
  below 256. On these, \<open>str.lower\<close> acts on one character at a time and keeps the length,
  and \<open>str.isspace\<close>, \<open>str.strip\<close> and the regular expression class \<open>\s\<close> agree on
  the twelve characters listed in \<open>isspace\<close>.
\<close>

definition isspace :: "char \<Rightarrow> bool" where
  "isspace c = (c \<in> set [CHR 0x09, CHR 0x0A, CHR 0x0B, CHR 0x0C, CHR 0x0D,
                           CHR 0x1C, CHR 0x1D, CHR 0x1E, CHR 0x1F, CHR 0x20,
                           CHR 0x85, CHR 0xA0])"

definition isdigit :: "char \<Rightarrow> bool" where
  "isdigit c = (c \<in> set ''0123456789'')"

text \<open>
  The upper-case letters below 256: \<open>A\<close> to \<open>Z\<close>, and the code points \<open>0xC0\<close> to
  \<open>0xDE\<close> except the multiplication sign \<open>0xD7\<close>.
\<close>

definition latin1_uppercase :: string where
  "latin1_uppercase =
     [CHR 0xC0, CHR 0xC1, CHR 0xC2, CHR 0xC3, CHR 0xC4, CHR 0xC5, CHR 0xC6, CHR 0xC7,
      CHR 0xC8, CHR 0xC9, CHR 0xCA, CHR 0xCB, CHR 0xCC, CHR 0xCD, CHR 0xCE, CHR 0xCF,
      CHR 0xD0, CHR 0xD1, CHR 0xD2, CHR 0xD3, CHR 0xD4, CHR 0xD5, CHR 0xD6,
      CHR 0xD8, CHR 0xD9, CHR 0xDA, CHR 0xDB, CHR 0xDC, CHR 0xDD, CHR 0xDE]"

definition isupper :: "char \<Rightarrow> bool" where
  "isupper c = (c \<in> set (''ABCDEFGHIJKLMNOPQRSTUVWXYZ'' @ latin1_uppercase))"

text \<open>The lower-case letter is 32 above the upper-case one: bit 5 is set.\<close>

fun add32 :: "char \<Rightarrow> char" where
  "add32 (Char b0 b1 b2 b3 b4 b5 b6 b7) = Char b0 b1 b2 b3 b4 True b6 b7"

definition lower_char :: "char \<Rightarrow> char" where
  "lower_char c = (if isupper c then add32 c else c)"

definition lower :: "string \<Rightarrow> string" where
  "lower s = map lower_char s"

definition strip :: "string \<Rightarrow> string" where
  "strip s = rev (dropWhile isspace (rev (dropWhile isspace s)))"

text \<open>\<open>isin kw text\<close> is Python's \<open>kw in text\<close> on strings.\<close>

fun isin :: "string \<Rightarrow> string \<Rightarrow> bool" where
  "isin kw [] = (kw = [])"
| "isin kw (c # cs) = (prefix kw (c # cs) \<or> isin kw cs)"

text \<open>\<open>s.split(sep)[0]\<close> for a one-character separator.\<close>

definition split_first :: "char \<Rightarrow> string \<Rightarrow> string" where
  "split_first sep s = takeWhile (\<lambda>c. c \<noteq> sep) s"

lemma length_dropWhile_less_Suc: "length (dropWhile P xs) < Suc (length xs)"
  by (simp add: le_imp_less_Suc length_dropWhile_le)


section \<open>Subject normalization (\<open>EmailThread._normalize_subject\<close>)\<close>

text \<open>
  One round of \<open>Re:\s*\<close> at the head of the string, ignoring case; the result is the
  rest of the string.
\<close>

fun match_reply :: "string \<Rightarrow> string option" where
  "match_reply (r # e # c # rest) =
     (if (r = CHR ''R'' \<or> r = CHR ''r'') \<and> (e = CHR ''E'' \<or> e = CHR ''e'') \<and> c = CHR '':''
      then Some (dropWhile isspace rest) else None)"
| "match_reply _ = None"

lemma match_reply_shorter: "match_reply s = Some r \<Longrightarrow> length r < length s"
  by (induction s rule: match_reply.induct)
     (auto split: if_splits intro: le_less_trans [OF length_dropWhile_le])

text \<open>\<open>re.sub(r'^(Re:\s*)+', '', subject, flags=re.IGNORECASE)\<close>\<close>

function strip_reply :: "string \<Rightarrow> string" where
  "strip_reply s = (case match_reply s of Some rest \<Rightarrow> strip_reply rest | None \<Rightarrow> s)"
  by pat_completeness auto
termination
  by (relation "measure length") (auto dest: match_reply_shorter)

text \<open>
  \<open>\[TAG[^\]]*\]\s*\<close> at the head of the string, for \<open>TAG\<close> one of \<open>PATCH\<close>, \<open>RFC\<close>,
  \<open>GIT\<close>; the result is the rest of the string.
\<close>

definition match_tag :: "string \<Rightarrow> string \<Rightarrow> string option" where
  "match_tag tag s =
     (if prefix (CHR ''['' # tag) s
      then (case dropWhile (\<lambda>c. c \<noteq> CHR '']'') (drop (Suc (length tag)) s) of
              [] \<Rightarrow> None
            | _ # r \<Rightarrow> Some (dropWhile isspace r))
      else None)"

lemma match_tag_shorter: "match_tag tag s = Some r \<Longrightarrow> length r < length s"
proof -
  assume a: "match_tag tag s = Some r"
  then obtain x r' where d: "dropWhile (\<lambda>c. c \<noteq> CHR '']'') (drop (Suc (length tag)) s) = x # r'"
    and r: "r = dropWhile isspace r'"
    by (auto simp: match_tag_def split: if_splits list.splits)
  have "length (x # r') \<le> length (drop (Suc (length tag)) s)"
    unfolding d [symmetric] by (rule length_dropWhile_le)
  moreover have "length r \<le> length r'"
    unfolding r by (rule length_dropWhile_le)
  ultimately show ?thesis by simp
qed

text \<open>\<open>re.sub(r'\[TAG[^\]]*\]\s*', '', s)\<close>: every match, left to right, is removed.\<close>

function sub_tag :: "string \<Rightarrow> string \<Rightarrow> string" where
  "sub_tag tag [] = []"
| "sub_tag tag (c # cs) =
     (case match_tag tag (c # cs) of
        Some r \<Rightarrow> sub_tag tag r
      | None \<Rightarrow> c # sub_tag tag cs)"
  by pat_completeness auto
termination
  by (relation "measure (\<lambda>(tag, s). length s)") (auto dest: match_tag_shorter)

text \<open>\<open>re.sub(r'\s+', ' ', s)\<close>\<close>

function collapse_ws :: "string \<Rightarrow> string" where
  "collapse_ws [] = []"
| "collapse_ws (c # cs) =
     (if isspace c then CHR '' '' # collapse_ws (dropWhile isspace cs)
      else c # collapse_ws cs)"
  by pat_completeness auto
termination
  by (relation "measure length") (auto simp: length_dropWhile_less_Suc)

definition normalize_subject :: "string \<Rightarrow> string" where
  "normalize_subject subject =
     (let s = strip_reply subject;
          s = sub_tag ''PATCH'' s;
          s = sub_tag ''RFC'' s;
          s = sub_tag ''GIT'' s;
          s = collapse_ws s
      in take 100 (strip s))"

text \<open>
  What a second normalization would still change: a tag somewhere in the string, or
  white space at its end.
\<close>

fun has_tag :: "string \<Rightarrow> string \<Rightarrow> bool" where
  "has_tag tag [] = False"
| "has_tag tag (c # cs) = (match_tag tag (c # cs) \<noteq> None \<or> has_tag tag cs)"

definition ends_with_space :: "string \<Rightarrow> bool" where
  "ends_with_space s = (s \<noteq> [] \<and> isspace (last s))"

text \<open>Every run of white space is one blank.\<close>

fun collapsed :: "string \<Rightarrow> bool" where
  "collapsed [] = True"
| "collapsed (c # cs) =
     ((isspace c \<longrightarrow> c = CHR '' '' \<and> (cs = [] \<or> \<not> isspace (hd cs))) \<and> collapsed cs)"


section \<open>Records and the record parser (\<open>TopicBuilder.parse_mbox_file\<close>)\<close>

datatype py_error = TypeError | ValueError

text \<open>
  A \<open>datetime\<close>: its year, its wall-clock time in microseconds since the start of year 1,
  and its offset from UTC in microseconds, absent for a naive value. Python orders two
  naive values by wall-clock time and two aware values by their UTC instant; ordering a
  naive against an aware value raises \<open>TypeError\<close>.
\<close>

record datetime =
  dt_year :: int
  dt_wall :: int
  dt_utcoffset :: "int option"

definition dt_less :: "datetime \<Rightarrow> datetime \<Rightarrow> py_error + bool" where
  "dt_less a b =
     (case (dt_utcoffset a, dt_utcoffset b) of
        (None, None) \<Rightarrow> Inr (dt_wall a < dt_wall b)
      | (Some x, Some y) \<Rightarrow> Inr (dt_wall a - x < dt_wall b - y)
      | _ \<Rightarrow> Inl TypeError)"

text \<open>\<open>datetime.max\<close>, the naive value 9999-12-31 23:59:59.999999.\<close>

definition datetime_max :: datetime where
  "datetime_max = \<lparr>dt_year = 9999, dt_wall = 315537897599999999, dt_utcoffset = None\<rparr>"

text \<open>
  What the \<open>email\<close> library hands to the parser for one file: the four headers read with
  the default \<open>''\<close>, the text the body extraction ends with (the decoded first
  \<open>text/plain\<close> part, or the decoded payload, or \<open>''\<close>), and the names of the two
  directories above the file. A file that cannot be read raises inside the \<open>try\<close>.
\<close>

record raw_email =
  r_filepath :: string
  r_from :: string
  r_subject :: string
  r_date :: string
  r_message_id :: string
  r_payload :: string
  r_year_dir :: string
  r_month_dir :: string

datatype mbox_file = Unreadable | Mbox raw_email

record message =
  m_filepath :: string
  m_message_id :: string
  m_author_name :: string
  m_author_email :: string
  m_subject :: string
  m_date :: "datetime option"
  m_date_str :: string
  m_body :: string
  m_year :: string
  m_month :: string

text \<open>
  \<open>"?([^"<]+)"?\s*<([^>]+)>\<close> at the head of the string: the two groups. Neither
  bracket class can run over its closing delimiter, so backtracking finds nothing that
  the greedy run does not.
\<close>

definition match_author :: "string \<Rightarrow> (string \<times> string) option" where
  "match_author s =
     (let s1 = (case s of c # r \<Rightarrow> if c = CHR 0x22 then r else s | [] \<Rightarrow> s);
          g1 = takeWhile (\<lambda>c. c \<noteq> CHR 0x22 \<and> c \<noteq> CHR ''<'') s1;
          s2 = dropWhile (\<lambda>c. c \<noteq> CHR 0x22 \<and> c \<noteq> CHR ''<'') s1;
          s3 = (case s2 of c # r \<Rightarrow> if c = CHR 0x22 then r else s2 | [] \<Rightarrow> s2);
          s4 = dropWhile isspace s3
      in if g1 = [] then None
         else (case s4 of
                 [] \<Rightarrow> None
               | c # r \<Rightarrow>
                   if c = CHR ''<''
                   then (let g2 = takeWhile (\<lambda>c. c \<noteq> CHR ''>'') r;
                             s5 = dropWhile (\<lambda>c. c \<noteq> CHR ''>'') r
                         in if g2 \<noteq> [] \<and> s5 \<noteq> [] then Some (g1, g2) else None)
                   else None))"

text \<open>\<open>re.search\<close> of that pattern: the leftmost position where it matches.\<close>

fun search_author :: "string \<Rightarrow> (string \<times> string) option" where
  "search_author [] = None"
| "search_author (c # cs) =
     (case match_author (c # cs) of
        Some g \<Rightarrow> Some g
      | None \<Rightarrow> search_author cs)"

text \<open>\<open>\s*\([^)]*\)\s*\<close> at the head of the string; the result is the rest.\<close>

definition match_paren :: "string \<Rightarrow> string option" where
  "match_paren s =
     (case dropWhile isspace s of
        [] \<Rightarrow> None
      | c # r \<Rightarrow>
          if c = CHR ''(''
          then (case dropWhile (\<lambda>c. c \<noteq> CHR '')'') r of
                  [] \<Rightarrow> None
                | _ # r' \<Rightarrow> Some (dropWhile isspace r'))
          else None)"

lemma match_paren_shorter: "match_paren s = Some r \<Longrightarrow> length r < length s"
proof -
  assume a: "match_paren s = Some r"
  then obtain c u x v where 1: "dropWhile isspace s = c # u"
    and 2: "dropWhile (\<lambda>c. c \<noteq> CHR '')'') u = x # v" and 3: "r = dropWhile isspace v"
    by (auto simp: match_paren_def split: list.splits if_splits)
  have "length (c # u) \<le> length s"
    unfolding 1 [symmetric] by (rule length_dropWhile_le)
  moreover have "length (x # v) \<le> length u"
    unfolding 2 [symmetric] by (rule length_dropWhile_le)
  moreover have "length r \<le> length v"
    unfolding 3 by (rule length_dropWhile_le)
  ultimately show ?thesis by simp
qed

text \<open>\<open>re.sub(r'\s*\([^)]*\)\s*', '', s)\<close>\<close>

function sub_paren :: "string \<Rightarrow> string" where
  "sub_paren [] = []"
| "sub_paren (c # cs) =
     (case match_paren (c # cs) of
        Some r \<Rightarrow> sub_paren r
      | None \<Rightarrow> c # sub_paren cs)"
  by pat_completeness auto
termination
  by (relation "measure length") (auto dest: match_paren_shorter)

text \<open>
  \<open>=\?[^?]+\?[^?]+\?([^?]+)\?=\<close> at the head of the string: the group and the rest.
\<close>

definition match_encoded :: "string \<Rightarrow> (string \<times> string) option" where
  "match_encoded s =
     (let notq = (\<lambda>c. c \<noteq> CHR ''?'')
      in if prefix ''=?'' s
         then (let s1 = drop 2 s; a = takeWhile notq s1
               in case dropWhile notq s1 of
                    [] \<Rightarrow> None
                  | _ # s2 \<Rightarrow>
                     (let b = takeWhile notq s2
                      in case dropWhile notq s2 of
                           [] \<Rightarrow> None
                         | _ # s3 \<Rightarrow>
                            (let g = takeWhile notq s3
                             in case dropWhile notq s3 of
                                  _ # e # s4 \<Rightarrow>
                                    if a \<noteq> [] \<and> b \<noteq> [] \<and> g \<noteq> [] \<and> e = CHR ''=''
                                    then Some (g, s4) else None
                                | _ \<Rightarrow> None)))
         else None)"

lemma match_encoded_shorter: "match_encoded s = Some (g, r) \<Longrightarrow> length r < length s"
proof -
  let ?q = "\<lambda>c. c \<noteq> CHR ''?''"
  assume a: "match_encoded s = Some (g, r)"
  then obtain x1 s2 x2 s3 x3 e where 1: "dropWhile ?q (drop 2 s) = x1 # s2"
    and 2: "dropWhile ?q s2 = x2 # s3" and 3: "dropWhile ?q s3 = x3 # e # r"
    by (auto simp: match_encoded_def Let_def split: list.splits if_splits)
  have "length (x1 # s2) \<le> length (drop 2 s)"
    unfolding 1 [symmetric] by (rule length_dropWhile_le)
  moreover have "length (x2 # s3) \<le> length s2"
    unfolding 2 [symmetric] by (rule length_dropWhile_le)
  moreover have "length (x3 # e # r) \<le> length s3"
    unfolding 3 [symmetric] by (rule length_dropWhile_le)
  ultimately show ?thesis by simp
qed

text \<open>\<open>re.sub(r'=\?[^?]+\?[^?]+\?([^?]+)\?=', r'\1', s)\<close>\<close>

function sub_encoded :: "string \<Rightarrow> string" where
  "sub_encoded [] = []"
| "sub_encoded (c # cs) =
     (case match_encoded (c # cs) of
        Some (g, r) \<Rightarrow> g @ sub_encoded r
      | None \<Rightarrow> c # sub_encoded cs)"
  by pat_completeness auto
termination
  by (relation "measure length") (auto dest: match_encoded_shorter)

text \<open>
  \<open>\s*\([^)]*\)\s*$\<close> at the head of the string: a comment in parentheses that runs to
  the end of the string.
\<close>

definition match_trailing_comment :: "string \<Rightarrow> bool" where
  "match_trailing_comment s =
     (case dropWhile isspace s of
        [] \<Rightarrow> False
      | c # r \<Rightarrow>
          c = CHR ''(''
          \<and> (case dropWhile (\<lambda>c. c \<noteq> CHR '')'') r of
                [] \<Rightarrow> False
              | _ # r' \<Rightarrow> dropWhile isspace r' = []))"

text \<open>\<open>re.sub(r'\s*\([^)]*\)\s*$', '', s)\<close>\<close>

fun sub_trailing_comment :: "string \<Rightarrow> string" where
  "sub_trailing_comment [] = []"
| "sub_trailing_comment (c # cs) =
     (if match_trailing_comment (c # cs) then [] else c # sub_trailing_comment cs)"

text \<open>
  \<open>datetime.strptime\<close> belongs to the standard library: the parser takes it as the
  parameter \<open>strptime\<close>, which gives \<open>None\<close> where the library raises \<open>ValueError\<close>.
\<close>

type_synonym strptime = "string \<Rightarrow> string \<Rightarrow> datetime option"

definition date_formats :: "string list" where
  "date_formats = [''%a, %d %b %Y %H:%M:%S %z'', ''%d %b %Y %H:%M:%S %z'',
                   ''%a, %d %b %Y %H:%M:%S'', ''%d %b %Y %H:%M:%S'']"

fun try_formats :: "strptime \<Rightarrow> string \<Rightarrow> string list \<Rightarrow> datetime option" where
  "try_formats strptime s [] = None"
| "try_formats strptime s (fmt # fmts) =
     (case strptime s fmt of
        Some d \<Rightarrow> Some d
      | None \<Rightarrow> try_formats strptime s fmts)"

definition parse_date :: "strptime \<Rightarrow> string \<Rightarrow> datetime option" where
  "parse_date strptime date_str =
     (if date_str = [] then None
      else try_formats strptime (strip (sub_trailing_comment date_str)) date_formats)"

definition extract_author :: "string \<Rightarrow> string \<times> string" where
  "extract_author from_addr =
     (let (author_name, author_email) =
            (case search_author from_addr of
               Some (g1, g2) \<Rightarrow> (strip g1, strip g2)
             | None \<Rightarrow>
                 (if CHR ''@'' \<in> set from_addr then split_first (CHR ''@'') from_addr
                  else from_addr,
                  from_addr));
          author_name = strip (sub_paren author_name);
          author_name = sub_encoded author_name;
          author_name =
            (if author_name = [] \<or> prefix ''<'' author_name
             then (if CHR ''@'' \<in> set author_email then split_first (CHR ''@'') author_email
                   else ''Unknown'')
             else author_name)
      in (author_name, author_email))"

definition parse_mbox_file :: "strptime \<Rightarrow> mbox_file \<Rightarrow> message option" where
  "parse_mbox_file strptime file =
     (case file of
        Unreadable \<Rightarrow> None
      | Mbox raw \<Rightarrow>
          if r_subject raw = [] \<or> strip (r_subject raw) = [] then None
          else (let (author_name, author_email) = extract_author (r_from raw);
                    parsed_date = parse_date strptime (r_date raw)
                in Some \<lparr>m_filepath = r_filepath raw,
                         m_message_id = r_message_id raw,
                         m_author_name = author_name,
                         m_author_email = author_email,
                         m_subject = r_subject raw,
                         m_date = parsed_date,
                         m_date_str = r_date raw,
                         m_body = take 5000 (r_payload raw),
                         m_year = r_year_dir raw,
                         m_month = r_month_dir raw\<rparr>))"


section \<open>Filters and classifier\<close>

definition SPAM_INDICATORS :: "string list" where
  "SPAM_INDICATORS =
     [''loan'', ''business loan'', ''funding'', ''lottery'', ''winner'', ''inheritance'',
      ''million dollar'', ''bank transfer'', ''western union'', ''urgent reply'',
      ''dear friend'', ''beneficiary'', ''next of kin'', ''atm card'', ''covid fund'',
      ''charity'', ''donation'', ''wohlt'' @ [CHR 0xC3, CHR 0xA4] @ ''tigkeitsfonds'',
      ''spende'', ''flota'',
      ''servicio'', ''mailbox full'', ''account suspended'', ''verify your'',
      ''click here'', ''act now'', ''limited time'', ''hello okay'', ''your mailbox'']"

definition SPARSE_KEYWORDS :: "string list" where
  "SPARSE_KEYWORDS =
     [''sparse'', ''checker'', ''__user'', ''__kernel'', ''__iomem'', ''__force'',
      ''__acquires'', ''__releases'', ''__must_hold'', ''address space'',
      ''context'', ''endian'', ''__le'', ''__be'', ''bitwise'', ''noderef'',
      ''type checking'', ''static analysis'', ''warning'', ''annotation'',
      ''lock'', ''mutex'', ''spinlock'', ''rcu'', ''srcu'', ''linearize'',
      ''symbol'', ''parse'', ''evaluate'', ''expression'', ''declaration'',
      ''gcc'', ''clang'', ''llvm'', ''compiler'', ''attribute'', ''kbuild'',
      ''kernel'', ''patch'', ''fix'', ''bug'', ''error'', ''overflow'', ''cast'',
      ''pointer'', ''dereference'', ''null'', ''undefined'', ''constexpr'']"

text \<open>
  \<open>TOPIC_CATEGORIES\<close>, in the order the dictionary is written: each category with its
  keywords (its title and description take no part in the classification).
\<close>

definition TOPIC_CATEGORIES :: "(string \<times> string list) list" where
  "TOPIC_CATEGORIES =
     [(''context_analysis'',
        [''context analysis'', ''capability analysis'', ''thread safety'',
         ''__acquires'', ''__releases'', ''__must_hold'', ''lockdep'']),
      (''address_space'',
        [''address space'', ''__user'', ''__kernel'', ''__iomem'', ''noderef'',
         ''user pointer'', ''kernel pointer'']),
      (''type_system'',
        [''type check'', ''bitwise'', ''__le16'', ''__be32'', ''endian'',
         ''cast'', ''typeof'', ''overflow'', ''signedness'']),
      (''compiler_compat'',
        [''gcc'', ''clang'', ''llvm'', ''attribute'', ''__attribute__'',
         ''builtin'', ''compiler.h'', ''asm'']),
      (''kernel_integration'',
        [''kbuild'', ''make c='', ''kernel build'', ''linux kernel'',
         ''sparse warning'', ''sparse error'']),
      (''sparse_internals'',
        [''linearize'', ''parse.c'', ''evaluate'', ''symbol table'',
         ''expression tree'', ''ssa'', ''basic block'', ''sparse internal'']),
      (''rfc_proposals'',
        [''rfc'', ''proposal'', ''introduce'', ''new feature'', ''add support''])]"

definition is_spam :: "message \<Rightarrow> bool" where
  "is_spam msg =
     (let subject = lower (m_subject msg);
          body = take 1000 (lower (m_body msg))
      in if list_ex (\<lambda>indicator. isin indicator subject \<or> isin indicator body) SPAM_INDICATORS
         then True
         else if (isin ''=?utf-8?b?'' (lower (m_subject msg))
                  \<or> isin ''=?utf-8?q?'' (lower (m_subject msg)))
                 \<and> \<not> list_ex (\<lambda>kw. isin kw subject) SPARSE_KEYWORDS
         then True
         else False)"

definition known_contributors :: "string list" where
  "known_contributors = [''torvalds'', ''luc van oostenryck'', ''chris li'',
                         ''josh triplett'', ''dan carpenter'', ''sparse'']"

definition is_sparse_related :: "message \<Rightarrow> bool" where
  "is_sparse_related msg =
     (let subject = lower (m_subject msg);
          body = take 2000 (lower (m_body msg))
      in if list_ex (\<lambda>kw. isin kw subject \<or> isin kw body) SPARSE_KEYWORDS then True
         else if list_ex (\<lambda>contrib. isin contrib (lower (m_author_name msg))) known_contributors
         then True
         else False)"

definition categorize_message :: "message \<Rightarrow> string list" where
  "categorize_message msg =
     (let subject = lower (m_subject msg);
          body = take 2000 (lower (m_body msg));
          text = subject @ '' '' @ body;
          categories = map fst (filter (\<lambda>(cat_id, keywords).
                                          list_ex (\<lambda>kw. isin kw text) keywords)
                                       TOPIC_CATEGORIES)
      in if categories \<noteq> [] then categories else [''general''])"


section \<open>Threads (\<open>EmailThread\<close>, \<open>TopicBuilder.load_and_process_emails\<close>)\<close>

record email_thread =
  t_subject :: string
  t_normalized_subject :: string
  t_messages :: "message list"
  t_participants :: "string set"
  t_categories :: "string set"

definition EmailThread :: "string \<Rightarrow> email_thread" where
  "EmailThread subject =
     \<lparr>t_subject = subject, t_normalized_subject = normalize_subject subject,
      t_messages = [], t_participants = {}, t_categories = {}\<rparr>"

definition add_message :: "email_thread \<Rightarrow> message \<Rightarrow> email_thread" where
  "add_message t msg =
     t\<lparr>t_messages := t_messages t @ [msg],
       t_participants := insert (m_author_name msg) (t_participants t)\<rparr>"

text \<open>
  The builder: \<open>threads\<close> is the dictionary from thread key to thread, as the list of
  its items in insertion order (\<open>AList.update\<close> replaces the value of a key that is
  present and appends a new key at the end, as a Python \<open>dict\<close> does); the three
  counters are the ones the loader prints.
\<close>

record topic_builder =
  threads :: "(string \<times> email_thread) list"
  total_loaded :: nat
  spam_filtered :: nat
  unrelated_filtered :: nat

text \<open>
  \<open>hashlib.digest(s.encode()).hexdigest()\<close> belongs to the standard library: the loader
  takes it as the parameter \<open>md5_hexdigest\<close>.
\<close>

definition thread_key :: "(string \<Rightarrow> string) \<Rightarrow> string \<Rightarrow> string" where
  "thread_key md5_hexdigest normalized = take 16 (md5_hexdigest (lower normalized))"

text \<open>The body of the loop, for one parsed record.\<close>

definition process_message ::
    "(string \<Rightarrow> string) \<Rightarrow> message \<Rightarrow> topic_builder \<Rightarrow> topic_builder" where
  "process_message md5_hexdigest msg tb =
     (let tb = tb\<lparr>total_loaded := total_loaded tb + 1\<rparr>
      in if is_spam msg then tb\<lparr>spam_filtered := spam_filtered tb + 1\<rparr>
         else if \<not> is_sparse_related msg
         then tb\<lparr>unrelated_filtered := unrelated_filtered tb + 1\<rparr>
         else (let categories = categorize_message msg;
                   normalized = normalize_subject (m_subject msg);
                   key = thread_key md5_hexdigest normalized;
                   thread = (case map_of (threads tb) key of
                               None \<Rightarrow> EmailThread (m_subject msg)
                             | Some t \<Rightarrow> t);
                   thread = add_message thread msg;
                   thread = thread\<lparr>t_categories := t_categories thread \<union> set categories\<rparr>
               in tb\<lparr>threads := AList.update key thread (threads tb)\<rparr>))"

definition process_records ::
    "(string \<Rightarrow> string) \<Rightarrow> message list \<Rightarrow> topic_builder \<Rightarrow> topic_builder" where
  "process_records md5_hexdigest msgs tb = fold (process_message md5_hexdigest) msgs tb"

text \<open>
  The loader, over the files in the order the directory walk yields them: a file that
  does not parse is skipped, every other record goes through the body of the loop.
\<close>

definition load_and_process_emails ::
    "strptime \<Rightarrow> (string \<Rightarrow> string) \<Rightarrow> mbox_file list \<Rightarrow> topic_builder" where
  "load_and_process_emails strptime md5_hexdigest files =
     process_records md5_hexdigest (List.map_filter (parse_mbox_file strptime) files)
       \<lparr>threads = [], total_loaded = 0, spam_filtered = 0, unrelated_filtered = 0\<rparr>"


section \<open>Key decisions (\<open>TopicBuilder.extract_key_decisions\<close>)\<close>

text \<open>
  \<open>min(xs, key=key)\<close> over datetimes: the first smallest element, \<open>ValueError\<close> on an
  empty list, \<open>TypeError\<close> as soon as a naive key meets an aware one.
\<close>

fun min_loop :: "('a \<Rightarrow> datetime) \<Rightarrow> 'a \<Rightarrow> 'a list \<Rightarrow> py_error + 'a" where
  "min_loop key best [] = Inr best"
| "min_loop key best (x # xs) =
     (case dt_less (key x) (key best) of
        Inl e \<Rightarrow> Inl e
      | Inr b \<Rightarrow> min_loop key (if b then x else best) xs)"

definition py_min :: "('a \<Rightarrow> datetime) \<Rightarrow> 'a list \<Rightarrow> py_error + 'a" where
  "py_min key xs = (case xs of [] \<Rightarrow> Inl ValueError | x # xs' \<Rightarrow> min_loop key x xs')"

definition get_first_date :: "email_thread \<Rightarrow> py_error + datetime option" where
  "get_first_date t =
     (let dates = List.map_filter m_date (t_messages t)
      in if dates \<noteq> [] then map_sum id Some (py_min id dates) else Inr None)"

text \<open>
  The threads with at least five messages and two participants, in the order of the
  dictionary, then sorted by message count with \<open>reverse=True\<close>: the list is reversed,
  sorted stably (as \<open>sort_key\<close> does) and reversed again, so that threads of equal size
  keep their order.
\<close>

definition significant_threads :: "topic_builder \<Rightarrow> email_thread list" where
  "significant_threads tb =
     rev (sort_key (\<lambda>t. length (t_messages t))
       (rev (filter (\<lambda>t. length (t_messages t) \<ge> 5 \<and> card (t_participants t) \<ge> 2)
          (map snd (threads tb)))))"

text \<open>The decision indicators of one message: the outcome after it, given the one before.\<close>

definition decide :: "string option \<Rightarrow> message \<Rightarrow> string option" where
  "decide outcome msg =
     (let body = lower (m_body msg)
      in if list_ex (\<lambda>phrase. isin phrase body)
              [''merged'', ''applied'', ''pushed'', ''committed'']
         then Some ''merged''
         else if list_ex (\<lambda>phrase. isin phrase body)
              [''nack'', ''rejected'', ''not taking'', ''won'' @ [CHR 0x27] @ ''t work'']
         then Some ''rejected''
         else if isin ''acked-by'' body \<or> isin ''reviewed-by'' body
         then Some ''accepted''
         else outcome)"

text \<open>The outcome after the loop over the messages of a thread, starting from \<open>None\<close>.\<close>

definition thread_outcome :: "message list \<Rightarrow> string option" where
  "thread_outcome msgs = foldl decide None msgs"

text \<open>\<open>re.split(r'[.!?]\s+', s)\<close>\<close>

fun cons_first :: "char \<Rightarrow> string list \<Rightarrow> string list" where
  "cons_first c [] = [[c]]"
| "cons_first c (p # ps) = (c # p) # ps"

function split_sentences :: "string \<Rightarrow> string list" where
  "split_sentences [] = [[]]"
| "split_sentences (c # cs) =
     (if c \<in> set ''.!?'' \<and> cs \<noteq> [] \<and> isspace (hd cs)
      then [] # split_sentences (dropWhile isspace cs)
      else cons_first c (split_sentences cs))"
  by pat_completeness auto
termination
  by (relation "measure length") (auto simp: length_dropWhile_less_Suc)

definition message_rationale :: "message \<Rightarrow> (string \<times> string) list" where
  "message_rationale msg =
     (if lower (m_author_name msg) \<in> set [''linus torvalds'', ''luc van oostenryck'']
      then map (\<lambda>sent. (m_author_name msg, strip sent))
             (filter (\<lambda>sent. length sent > 50 \<and> length sent < 300
                        \<and> list_ex (\<lambda>word. isin word (lower sent))
                             [''because'', ''reason'', ''problem'', ''issue'',
                              ''should'', ''must'', ''need''])
                (split_sentences (take 1500 (m_body msg))))
      else [])"

text \<open>
  One entry of the result. \<open>first_date\<close> is kept as the datetime whose ISO text the
  source stores.
\<close>

record decision =
  d_subject :: string
  d_normalized_subject :: string
  d_message_count :: nat
  d_participants :: "string set"
  d_categories :: "string set"
  d_first_date :: "datetime option"
  d_year :: "int option"
  d_outcome :: "string option"
  d_rationale :: "(string \<times> string) list"
  d_first_message_body :: string

definition thread_decision :: "email_thread \<Rightarrow> py_error + decision" where
  "thread_decision thread =
     (case py_min (\<lambda>m. case m_date m of Some d \<Rightarrow> d | None \<Rightarrow> datetime_max)
             (t_messages thread) of
        Inl e \<Rightarrow> Inl e
      | Inr first_msg \<Rightarrow>
         (let outcome = thread_outcome (t_messages thread);
              rationale = concat (map message_rationale (t_messages thread))
          in case get_first_date thread of
               Inl e \<Rightarrow> Inl e
             | Inr first_date \<Rightarrow>
                 Inr \<lparr>d_subject = t_subject thread,
                      d_normalized_subject = t_normalized_subject thread,
                      d_message_count = length (t_messages thread),
                      d_participants = t_participants thread,
                      d_categories = t_categories thread,
                      d_first_date = first_date,
                      d_year = map_option dt_year first_date,
                      d_outcome = outcome,
                      d_rationale = take 3 rationale,
                      d_first_message_body = take 1000 (m_body first_msg)\<rparr>))"

text \<open>A loop that appends one result per element and stops at the first exception.\<close>

fun collect :: "('a \<Rightarrow> py_error + 'b) \<Rightarrow> 'a list \<Rightarrow> py_error + 'b list" where
  "collect f [] = Inr []"
| "collect f (x # xs) =
     (case f x of
        Inl e \<Rightarrow> Inl e
      | Inr y \<Rightarrow> (case collect f xs of Inl e \<Rightarrow> Inl e | Inr ys \<Rightarrow> Inr (y # ys)))"

definition extract_key_decisions :: "topic_builder \<Rightarrow> py_error + decision list" where
  "extract_key_decisions tb = collect thread_decision (take 50 (significant_threads tb))"


section \<open>The entry of a thread in the topics document (\<open>EmailThread.to_dict\<close>)\<close>

text \<open>\<open>datetime.min\<close>, the naive value 0001-01-01 00:00:00.\<close>

definition datetime_min :: datetime where
  "datetime_min = \<lparr>dt_year = 1, dt_wall = 0, dt_utcoffset = None\<rparr>"

text \<open>
  \<open>max(xs)\<close> over datetimes: the first largest element, \<open>ValueError\<close> on an empty list,
  \<open>TypeError\<close> as soon as a naive value meets an aware one.
\<close>

fun max_loop :: "('a \<Rightarrow> datetime) \<Rightarrow> 'a \<Rightarrow> 'a list \<Rightarrow> py_error + 'a" where
  "max_loop key best [] = Inr best"
| "max_loop key best (x # xs) =
     (case dt_less (key best) (key x) of
        Inl e \<Rightarrow> Inl e
      | Inr b \<Rightarrow> max_loop key (if b then x else best) xs)"

definition py_max :: "('a \<Rightarrow> datetime) \<Rightarrow> 'a list \<Rightarrow> py_error + 'a" where
  "py_max key xs = (case xs of [] \<Rightarrow> Inl ValueError | x # xs' \<Rightarrow> max_loop key x xs')"

definition get_last_date :: "email_thread \<Rightarrow> py_error + datetime option" where
  "get_last_date t =
     (let dates = List.map_filter m_date (t_messages t)
      in if dates \<noteq> [] then map_sum id Some (py_max id dates) else Inr None)"

text \<open>
  The point of the time line by which two datetimes of the same kind are ordered: the
  wall-clock time of a naive value, the UTC instant of an aware one.
\<close>

definition dt_instant :: "datetime \<Rightarrow> int" where
  "dt_instant d = (case dt_utcoffset d of None \<Rightarrow> dt_wall d | Some x \<Rightarrow> dt_wall d - x)"

text \<open>
  \<open>sorted(xs, key=key)\<close> with datetimes as keys: a stable sort in ascending order. A sort
  of keys of both kinds must at some point compare a naive key with an aware one (no
  other comparison tells how the two kinds interleave), and that comparison raises
  \<open>TypeError\<close>.
\<close>

definition sorted_by_datetime :: "('a \<Rightarrow> datetime) \<Rightarrow> 'a list \<Rightarrow> py_error + 'a list" where
  "sorted_by_datetime key xs =
     (if list_ex (\<lambda>x. dt_utcoffset (key x) = None) xs
         \<and> list_ex (\<lambda>x. dt_utcoffset (key x) \<noteq> None) xs
      then Inl TypeError
      else Inr (sort_key (\<lambda>x. dt_instant (key x)) xs))"

text \<open>
  The dictionary \<open>to_dict\<close> returns. \<open>datetime.isoformat\<close> belongs to the standard
  library and is the parameter \<open>isoformat\<close>; the two sets are kept as sets, the order in
  which \<open>list\<close> enumerates them not being fixed.
\<close>

record thread_dict =
  td_subject :: string
  td_normalized_subject :: string
  td_message_count :: nat
  td_participants :: "string set"
  td_categories :: "string set"
  td_first_date :: "string option"
  td_last_date :: "string option"
  td_year :: "int option"
  td_messages :: "message list"

definition to_dict :: "(datetime \<Rightarrow> string) \<Rightarrow> email_thread \<Rightarrow> py_error + thread_dict" where
  "to_dict isoformat t =
     (case get_first_date t of
        Inl e \<Rightarrow> Inl e
      | Inr first_date \<Rightarrow>
         (case get_last_date t of
            Inl e \<Rightarrow> Inl e
          | Inr last_date \<Rightarrow>
             (case sorted_by_datetime
                     (\<lambda>m. case m_date m of Some d \<Rightarrow> d | None \<Rightarrow> datetime_min)
                     (t_messages t) of
                Inl e \<Rightarrow> Inl e
              | Inr sorted_messages \<Rightarrow>
                 Inr \<lparr>td_subject = t_subject t,
                      td_normalized_subject = t_normalized_subject t,
                      td_message_count = length (t_messages t),
                      td_participants = t_participants t,
                      td_categories = t_categories t,
                      td_first_date = map_option isoformat first_date,
                      td_last_date = map_option isoformat last_date,
                      td_year = map_option dt_year first_date,
                      td_messages = sorted_messages\<rparr>)))"


section \<open>Contributor statistics (\<open>EmailAnalyzer\<close>)\<close>

record email_data =
  e_filepath :: string
  e_from :: string
  e_author_name :: string
  e_author_email :: string
  e_subject :: string
  e_date :: "datetime option"
  e_date_str :: string
  e_message_id :: string
  e_body :: string
  e_year :: string
  e_month :: string

text \<open>
  The analyzer: \<open>emails\<close> holds the records that parsed; \<open>authors\<close> is the \<open>Counter\<close>,
  \<open>yearly_stats\<close> and \<open>topics\<close> the two \<open>defaultdict\<close>s, each as the list of its items in
  insertion order.
\<close>

record email_analyzer =
  emails :: "email_data list"
  authors :: "(string \<times> nat) list"
  subjects :: "string list"
  yearly_stats :: "(string \<times> nat \<times> string set) list"
  topics :: "(string \<times> nat) list"

definition EmailAnalyzer :: email_analyzer where
  "EmailAnalyzer = \<lparr>emails = [], authors = [], subjects = [], yearly_stats = [], topics = []\<rparr>"

text \<open>\<open>counter[key] += 1\<close>, a missing key counting as 0.\<close>

definition increment :: "string \<Rightarrow> (string \<times> nat) list \<Rightarrow> (string \<times> nat) list" where
  "increment key counter =
     AList.update key ((case map_of counter key of None \<Rightarrow> 0 | Some n \<Rightarrow> n) + 1) counter"

definition categorize_topic :: "string \<Rightarrow> (string \<times> nat) list \<Rightarrow> (string \<times> nat) list" where
  "categorize_topic subject topics0 =
     (let t = topics0;
          t = (if isin ''patch'' subject then increment ''patches'' t else t);
          t = (if isin ''bug'' subject \<or> isin ''fix'' subject
               then increment ''bug_fixes'' t else t);
          t = (if isin ''rfc'' subject then increment ''rfcs'' t else t);
          t = (if isin ''question'' subject \<or> isin ''?'' subject
               then increment ''questions'' t else t);
          t = (if isin ''announce'' subject \<or> isin ''release'' subject
               then increment ''announcements'' t else t);
          t = (if isin ''warning'' subject \<or> isin ''error'' subject
               then increment ''warnings_errors'' t else t);
          t = (if isin ''sparse'' subject then increment ''sparse_core'' t else t);
          t = (if isin ''check'' subject then increment ''checking'' t else t)
      in t)"

text \<open>The body of the loop of \<open>analyze\<close>, for one record.\<close>

definition analyze_email :: "email_data \<Rightarrow> email_analyzer \<Rightarrow> email_analyzer" where
  "analyze_email email a =
     (let author_key = lower (e_author_email email);
          year = e_year email;
          (count, year_authors) =
             (case map_of (yearly_stats a) year of None \<Rightarrow> (0, {}) | Some s \<Rightarrow> s)
      in a\<lparr>authors := increment author_key (authors a),
           subjects := subjects a @ [e_subject email],
           yearly_stats :=
             AList.update year (count + 1, insert author_key year_authors) (yearly_stats a),
           topics := categorize_topic (lower (e_subject email)) (topics a)\<rparr>)"

definition analyze :: "email_analyzer \<Rightarrow> email_analyzer" where
  "analyze a = fold analyze_email (emails a) a"

text \<open>
  \<open>load_all_emails\<close>, over the results of parsing the files: every record that parsed is
  appended to \<open>emails\<close>.
\<close>

definition load_all_emails :: "email_data option list \<Rightarrow> email_analyzer \<Rightarrow> email_analyzer" where
  "load_all_emails parsed a = a\<lparr>emails := emails a @ List.map_filter id parsed\<rparr>"

text \<open>
  \<open>Counter.most_common(n)\<close>: the \<open>n\<close> first items by count, largest first, items of equal
  count in insertion order.
\<close>

definition get_top_contributors :: "email_analyzer \<Rightarrow> nat \<Rightarrow> (string \<times> nat) list" where
  "get_top_contributors a n = take n (rev (sort_key snd (rev (authors a))))"

text \<open>The entries \<open>total_emails\<close>, \<open>total_contributors\<close> and \<open>top_contributors\<close> of the summary.\<close>

definition total_emails :: "email_analyzer \<Rightarrow> nat" where
  "total_emails a = length (emails a)"

definition total_contributors :: "email_analyzer \<Rightarrow> nat" where
  "total_contributors a = length (authors a)"

definition top_contributors :: "email_analyzer \<Rightarrow> (string \<times> nat) list" where
  "top_contributors a = get_top_contributors a 30"


section \<open>Threads by year (\<open>organize_by_year\<close>)\<close>

text \<open>
  The topics document of the earlier stage. A key of a JSON object is absent, or holds
  \<open>null\<close>, or holds a value; every value is taken to have the type the earlier stage
  writes for its key, and a key that stage never writes as \<open>null\<close> is an \<open>option\<close>
  (\<open>None\<close> for absent). The keys of a thread that this stage only copies are left out.
\<close>

datatype 'a field = Absent | Null | Val 'a

record json_message =
  jm_date :: "string field"
  jm_timestamp :: "string field"
  jm_date_str :: "string option"

record json_thread =
  jt_subject :: "string option"
  jt_normalized_subject :: "string option"
  jt_year :: "int field"
  jt_first_date :: "string field"
  jt_message_count :: "int option"
  jt_messages :: "json_message list option"

text \<open>
  What the earlier stage writes for a thread and this stage reads back: \<open>main\<close> dumps the
  dictionary of \<open>to_dict\<close> with \<open>json.dumps(\<dots>, cls=DateEncoder, default=str)\<close>. \<open>None\<close>
  is written as \<open>null\<close>. The date of a message is still a datetime; the \<open>default=str\<close>
  of the call takes the place of the encoder's own \<open>default\<close>, so it is written as \<open>str\<close>
  gives it (\<open>str\<close> of a datetime belongs to the standard library and is the parameter
  \<open>str_datetime\<close>). No message has a key \<open>timestamp\<close>.
\<close>

definition json_of_message :: "(datetime \<Rightarrow> string) \<Rightarrow> message \<Rightarrow> json_message" where
  "json_of_message str_datetime m =
     \<lparr>jm_date = (case m_date m of None \<Rightarrow> Null | Some d \<Rightarrow> Val (str_datetime d)),
      jm_timestamp = Absent,
      jm_date_str = Some (m_date_str m)\<rparr>"

definition json_of_thread :: "(datetime \<Rightarrow> string) \<Rightarrow> thread_dict \<Rightarrow> json_thread" where
  "json_of_thread str_datetime td =
     \<lparr>jt_subject = Some (td_subject td),
      jt_normalized_subject = Some (td_normalized_subject td),
      jt_year = (case td_year td of None \<Rightarrow> Null | Some y \<Rightarrow> Val y),
      jt_first_date = (case td_first_date td of None \<Rightarrow> Null | Some s \<Rightarrow> Val s),
      jt_message_count = Some (int (td_message_count td)),
      jt_messages = Some (map (json_of_message str_datetime) (td_messages td))\<rparr>"

text \<open>
  \<open>str(n)\<close> for an integer; \<open>str_digits\<close> gives the decimal digits of a number that is
  not negative.
\<close>

function str_digits :: "int \<Rightarrow> string" where
  "str_digits i =
     (if i < 10 then [''0123456789'' ! nat i]
      else str_digits (i div 10) @ [''0123456789'' ! nat (i mod 10)])"
  by pat_completeness auto
termination
  by (relation "measure nat") auto

definition str_int :: "int \<Rightarrow> string" where
  "str_int i = (if i < 0 then CHR ''-'' # str_digits (- i) else str_digits i)"

text \<open>\<open>(20\d{2}|199\d)\<close> at the head of the string, and \<open>re.search\<close> of it.\<close>

fun match_year :: "string \<Rightarrow> string option" where
  "match_year (a # b # c # d # rest) =
     (if a = CHR ''2'' \<and> b = CHR ''0'' \<and> isdigit c \<and> isdigit d then Some [a, b, c, d]
      else if a = CHR ''1'' \<and> b = CHR ''9'' \<and> c = CHR ''9'' \<and> isdigit d then Some [a, b, c, d]
      else None)"
| "match_year _ = None"

fun search_year :: "string \<Rightarrow> string option" where
  "search_year [] = None"
| "search_year (c # cs) =
     (case match_year (c # cs) of
        Some y \<Rightarrow> Some y
      | None \<Rightarrow> search_year cs)"

text \<open>
  \<open>thread.get('normalized_subject', thread.get('subject', ''))\<close>, the key under which a
  thread counts as processed.
\<close>

definition dedup_key :: "json_thread \<Rightarrow> string" where
  "dedup_key thread =
     (case jt_normalized_subject thread of
        Some s \<Rightarrow> s
      | None \<Rightarrow> (case jt_subject thread of Some s \<Rightarrow> s | None \<Rightarrow> []))"

text \<open>
  \<open>first_msg.get('date', first_msg.get('timestamp', first_msg.get('date_str', '')))\<close>;
  \<open>None\<close> is Python's \<open>None\<close>.
\<close>

definition message_timestamp :: "json_message \<Rightarrow> string option" where
  "message_timestamp first_msg =
     (case jm_date first_msg of
        Val s \<Rightarrow> Some s
      | Null \<Rightarrow> None
      | Absent \<Rightarrow>
         (case jm_timestamp first_msg of
            Val s \<Rightarrow> Some s
          | Null \<Rightarrow> None
          | Absent \<Rightarrow> (case jm_date_str first_msg of Some s \<Rightarrow> Some s | None \<Rightarrow> Some [])))"

text \<open>The year a thread is filed under.\<close>

definition thread_year :: "json_thread \<Rightarrow> string" where
  "thread_year thread =
     (let from_first_date =
            (case jt_first_date thread of
               Val s \<Rightarrow> if s \<noteq> [] then search_year s else None
             | _ \<Rightarrow> None);
          year =
            (case jt_year thread of
               Val n \<Rightarrow> if n \<noteq> 0 then Some (str_int n) else from_first_date
             | _ \<Rightarrow> from_first_date);
          year =
            (case jt_messages thread of
               Some (first_msg # _) \<Rightarrow>
                 if year = None \<or> year = Some []
                 then (case message_timestamp first_msg of
                         Some timestamp \<Rightarrow>
                           if timestamp \<noteq> []
                           then (case search_year timestamp of Some y \<Rightarrow> Some y | None \<Rightarrow> year)
                           else year
                       | None \<Rightarrow> year)
                 else year
             | _ \<Rightarrow> year)
      in case year of
           Some y \<Rightarrow> if y \<noteq> [] then y else ''unknown''
         | None \<Rightarrow> ''unknown'')"

text \<open>A thread as filed: the copy of the thread with its \<open>primary_category\<close>.\<close>

record year_thread =
  primary_category :: string
  yt_thread :: json_thread

record year_info =
  y_threads :: "year_thread list"
  y_total_threads :: nat
  y_total_messages :: int
  y_categories :: "(string \<times> nat) list"

definition new_year_info :: year_info where
  "new_year_info = \<lparr>y_threads = [], y_total_threads = 0, y_total_messages = 0, y_categories = []\<rparr>"

text \<open>
  The state of the two nested loops: \<open>yearly_data\<close> as the list of its items in insertion
  order, and the set \<open>processed_threads\<close>.
\<close>

record organizer =
  yearly_data :: "(string \<times> year_info) list"
  processed_threads :: "string set"

text \<open>The body of the inner loop, for one thread listed under \<open>category_id\<close>.\<close>

definition organize_thread :: "string \<Rightarrow> json_thread \<Rightarrow> organizer \<Rightarrow> organizer" where
  "organize_thread category_id thread st =
     (let thread_key = dedup_key thread
      in if thread_key \<in> processed_threads st then st
         else (let year = thread_year thread;
                   info = (case map_of (yearly_data st) year of
                             None \<Rightarrow> new_year_info
                           | Some i \<Rightarrow> i);
                   thread_copy = \<lparr>primary_category = category_id, yt_thread = thread\<rparr>;
                   count = (case jt_message_count thread of
                              Some n \<Rightarrow> n
                            | None \<Rightarrow>
                               int (length (case jt_messages thread of
                                              Some ms \<Rightarrow> ms
                                            | None \<Rightarrow> [])));
                   info = info\<lparr>y_threads := y_threads info @ [thread_copy],
                                y_total_threads := y_total_threads info + 1,
                                y_total_messages := y_total_messages info + count,
                                y_categories := increment category_id (y_categories info)\<rparr>
               in \<lparr>yearly_data = AList.update year info (yearly_data st),
                   processed_threads = insert thread_key (processed_threads st)\<rparr>))"

definition organize_category :: "string \<times> json_thread list \<Rightarrow> organizer \<Rightarrow> organizer" where
  "organize_category item st = fold (organize_thread (fst item)) (snd item) st"

text \<open>
  The two loops over \<open>data.get('topics', {}).items()\<close>: the items of the object \<open>topics\<close>,
  each a category with its list of threads.
\<close>

definition organize_threads :: "(string \<times> json_thread list) list \<Rightarrow> organizer" where
  "organize_threads topics_items =
     fold organize_category topics_items \<lparr>yearly_data = [], processed_threads = {}\<rparr>"

text \<open>
  The key the threads of a year are sorted by,
  \<open>t.get('first_date', t['messages'][0].get('date', '') if t.get('messages') else '')\<close>;
  \<open>None\<close> is Python's \<open>None\<close>.
\<close>

definition sort_date :: "year_thread \<Rightarrow> string option" where
  "sort_date t =
     (case jt_first_date (yt_thread t) of
        Val s \<Rightarrow> Some s
      | Null \<Rightarrow> None
      | Absent \<Rightarrow>
         (case jt_messages (yt_thread t) of
            Some (first_msg # _) \<Rightarrow>
              (case jm_date first_msg of Val s \<Rightarrow> Some s | Null \<Rightarrow> None | Absent \<Rightarrow> Some [])
          | _ \<Rightarrow> Some []))"

text \<open>
  \<open>threads.sort(key=\<dots>, reverse=True)\<close>: a list of fewer than two threads is left as it
  is; otherwise every key is compared, and comparing \<open>None\<close> raises \<open>TypeError\<close>. With
  \<open>reverse=True\<close> the list is reversed, sorted stably and reversed again.
\<close>

definition sort_year_threads :: "year_thread list \<Rightarrow> py_error + year_thread list" where
  "sort_year_threads ts =
     (if length ts < 2 then Inr ts
      else if list_ex (\<lambda>t. sort_date t = None) ts then Inl TypeError
      else Inr (rev (sort_key (\<lambda>t. case sort_date t of Some s \<Rightarrow> s | None \<Rightarrow> []) (rev ts))))"

text \<open>One year file: the year, its statistics and its sorted threads.\<close>

record year_file =
  f_year :: string
  f_total_threads :: nat
  f_total_messages :: int
  f_categories :: "(string \<times> nat) list"
  f_threads :: "year_thread list"

text \<open>
  The loop that writes the year files, over the years in sorted order: the files written,
  and the exception that ended the loop, if any (the files written before it stay).
\<close>

fun save_years :: "(string \<times> year_info) list \<Rightarrow> year_file list \<times> py_error option" where
  "save_years [] = ([], None)"
| "save_years ((year, info) # rest) =
     (case sort_year_threads (y_threads info) of
        Inl e \<Rightarrow> ([], Some e)
      | Inr ts \<Rightarrow>
         (let (files, err) = save_years rest
          in (\<lparr>f_year = year, f_total_threads = y_total_threads info,
               f_total_messages = y_total_messages info,
               f_categories = y_categories info, f_threads = ts\<rparr> # files, err)))"

definition organize_by_year ::
    "(string \<times> json_thread list) list \<Rightarrow> year_file list \<times> py_error option" where
  "organize_by_year topics_items =
     save_years (sort_key fst (yearly_data (organize_threads topics_items)))"


section \<open>Invariants\<close>

text \<open>
  What holds of the dictionary of threads throughout a run: its keys are distinct, and
  every message of a thread was kept by both filters and has the key of the thread as the
  key of its normalized subject.
\<close>

definition keyed :: "(string \<Rightarrow> string) \<Rightarrow> (string \<times> email_thread) list \<Rightarrow> bool" where
  "keyed digest al =
     (distinct (map fst al)
      \<and> (\<forall>(k, t)\<in>set al. \<forall>x\<in>set (t_messages t).
            k = thread_key digest (normalize_subject (m_subject x))
            \<and> \<not> is_spam x \<and> is_sparse_related x))"


text \<open>
  For the year partition: the threads of the topics document in the order the two loops
  visit them, each with the category it is listed under, and the threads filed in all
  year buckets together.
\<close>

definition listing :: "(string \<times> json_thread list) list \<Rightarrow> (string \<times> json_thread) list" where
  "listing topics_items =
     concat (map (\<lambda>(category_id, threads_list). map (Pair category_id) threads_list)
               topics_items)"

definition filed :: "(string \<times> year_info) list \<Rightarrow> year_thread list" where
  "filed data = concat (map (\<lambda>(year, info). y_threads info) data)"


text \<open>The state after the two loops have visited the threads \<open>xs\<close>.\<close>

definition organized :: "(string \<times> json_thread) list \<Rightarrow> organizer \<Rightarrow> bool" where
  "organized xs st =
     (processed_threads st = (\<lambda>(c, t). dedup_key t) ` set xs
      \<and> (\<lambda>yt. dedup_key (yt_thread yt)) ` set (filed (yearly_data st)) = processed_threads st
      \<and> distinct (map (\<lambda>yt. dedup_key (yt_thread yt)) (filed (yearly_data st)))
      \<and> (\<forall>yt\<in>set (filed (yearly_data st)).
            List.find (\<lambda>(c, t). dedup_key t = dedup_key (yt_thread yt)) xs
            = Some (primary_category yt, yt_thread yt))
      \<and> (\<forall>(year, info)\<in>set (yearly_data st). \<forall>yt\<in>set (y_threads info).
            year = thread_year (yt_thread yt))
      \<and> distinct (map fst (yearly_data st)))"







text \<open>
  For the year of a thread: the parsed dates of its messages, in thread order; what it
  is for a date to be the first of the earliest ones of a list (it is smaller than every
  date before it, and no date of the list is smaller than it); and the thread with the
  directory fields of its messages replaced.
\<close>

definition parsed_dates :: "email_thread \<Rightarrow> datetime list" where
  "parsed_dates t = List.map_filter m_date (t_messages t)"

definition first_earliest :: "datetime list \<Rightarrow> datetime \<Rightarrow> bool" where
  "first_earliest dates d =
     (\<exists>i<length dates. dates ! i = d
        \<and> (\<forall>j<i. dt_less d (dates ! j) = Inr True)
        \<and> (\<forall>j<length dates. dt_less (dates ! j) d = Inr False))"

definition relocate ::
    "(message \<Rightarrow> string) \<Rightarrow> (message \<Rightarrow> string) \<Rightarrow> email_thread \<Rightarrow> email_thread" where
  "relocate year_dir month_dir t =
     t\<lparr>t_messages := map (\<lambda>m. m\<lparr>m_year := year_dir m, m_month := month_dir m\<rparr>)
                        (t_messages t)\<rparr>"


section \<open>Example inputs\<close>

text \<open>
  A file sent by \<open>name\<close> and the record it parses to. The date header is in none of the
  four formats; \<open>example_strptime\<close> stands for a \<open>strptime\<close> that is asked about these
  files only, and \<open>example_digest\<close> for a digest that keeps its argument.
\<close>

definition example_raw :: "string \<Rightarrow> string \<Rightarrow> string \<Rightarrow> raw_email" where
  "example_raw name subject body =
     \<lparr>r_filepath = ''emails/2020/01/msg.mbox'',
      r_from = name @ '' <'' @ name @ ''@example.org>'',
      r_subject = subject, r_date = ''2020-01-06 10:00:00'',
      r_message_id = ''<msg@example.org>'', r_payload = body,
      r_year_dir = ''2020'', r_month_dir = ''01''\<rparr>"

definition example_file :: "string \<Rightarrow> string \<Rightarrow> string \<Rightarrow> mbox_file" where
  "example_file name subject body = Mbox (example_raw name subject body)"

definition example_message :: "string \<Rightarrow> string \<Rightarrow> string \<Rightarrow> message" where
  "example_message name subject body =
     \<lparr>m_filepath = ''emails/2020/01/msg.mbox'', m_message_id = ''<msg@example.org>'',
      m_author_name = name, m_author_email = name @ ''@example.org'',
      m_subject = subject, m_date = None, m_date_str = ''2020-01-06 10:00:00'',
      m_body = body, m_year = ''2020'', m_month = ''01''\<rparr>"

definition example_strptime :: strptime where
  "example_strptime s fmt =
     (if s = ''6 Jan 2020 10:00:00'' \<and> fmt = ''%d %b %Y %H:%M:%S''
      then Some \<lparr>dt_year = 2020, dt_wall = 63713901600000000, dt_utcoffset = None\<rparr>
      else None)"

definition example_digest :: "string \<Rightarrow> string" where
  "example_digest s = s"


text \<open>
  A builder with four threads: a patch that is first refused and then applied (five
  messages, three participants), a proposal (six messages, two participants), a
  monologue of five messages, and a single message.
\<close>

definition example_thread :: "message list \<Rightarrow> string set \<Rightarrow> email_thread" where
  "example_thread msgs categories =
     (fold (\<lambda>m t. add_message t m) msgs (EmailThread (m_subject (hd msgs))))
       \<lparr>t_categories := categories\<rparr>"

definition patch_thread :: email_thread where
  "patch_thread =
     example_thread
       [example_message ''alice'' ''[PATCH] fix cast'' ''please review'',
        example_message ''bob'' ''Re: [PATCH] fix cast'' ''NACK, this breaks the build'',
        example_message ''alice'' ''Re: [PATCH] fix cast'' ''v2 attached'',
        example_message ''bob'' ''Re: [PATCH] fix cast'' ''looks fine now'',
        example_message ''carol'' ''Re: [PATCH] fix cast'' ''Applied, thanks'']
       {''type_system''}"

definition example_builder :: topic_builder where
  "example_builder =
     \<lparr>threads =
        [(''fix cast'', patch_thread),
         (''context tracking'',
          example_thread
            [example_message ''erin'' ''[RFC] context tracking'' ''a first draft'',
             example_message ''frank'' ''Re: [RFC] context tracking'' ''some comments'',
             example_message ''erin'' ''Re: [RFC] context tracking'' ''updated'',
             example_message ''frank'' ''Re: [RFC] context tracking'' ''better'',
             example_message ''erin'' ''Re: [RFC] context tracking'' ''v3'',
             example_message ''frank'' ''Re: [RFC] context tracking'' ''Reviewed-by: frank'']
            {''rfc_proposals''}),
         (''sparse: endian w'',
          example_thread
            [example_message ''dave'' ''sparse: endian warning'' ''any idea?'',
             example_message ''dave'' ''Re: sparse: endian warning'' ''still there'',
             example_message ''dave'' ''Re: sparse: endian warning'' ''more data'',
             example_message ''dave'' ''Re: sparse: endian warning'' ''found it'',
             example_message ''dave'' ''Re: sparse: endian warning'' ''solved'']
            {''type_system''}),
         (''question about s'',
          example_thread
            [example_message ''grace'' ''question about sparse'' ''how do I run it?'']
            {''general''})],
      total_loaded = 17, spam_filtered = 0, unrelated_filtered = 0\<rparr>"








text \<open>
  Two parsed dates, both naive, with the texts \<open>isoformat\<close> and \<open>str\<close> give for them,
  and a thread with dates: its messages lie in directory 2019/12; the first and the last
  have no parsed date, the second is of March 2021, the third and the fourth of
  6 January 2020.
\<close>

definition example_date_2020 :: datetime where
  "example_date_2020 = \<lparr>dt_year = 2020, dt_wall = 63713901600000000, dt_utcoffset = None\<rparr>"

definition example_date_2021 :: datetime where
  "example_date_2021 = \<lparr>dt_year = 2021, dt_wall = 63750186000000000, dt_utcoffset = None\<rparr>"

definition example_isoformat :: "datetime \<Rightarrow> string" where
  "example_isoformat d =
     (if d = example_date_2020 then ''2020-01-06T10:00:00''
      else if d = example_date_2021 then ''2021-03-01T09:00:00''
      else [])"

definition example_str_datetime :: "datetime \<Rightarrow> string" where
  "example_str_datetime d =
     (if d = example_date_2020 then ''2020-01-06 10:00:00''
      else if d = example_date_2021 then ''2021-03-01 09:00:00''
      else [])"

definition dated_message :: "string \<Rightarrow> string \<Rightarrow> datetime option \<Rightarrow> message" where
  "dated_message name body date =
     (example_message name ''Re: [PATCH] fix noderef'' body)
       \<lparr>m_filepath := ''emails/2019/12/msg.mbox'', m_date := date,
        m_year := ''2019'', m_month := ''12''\<rparr>"

definition dated_thread :: email_thread where
  "dated_thread =
     example_thread
       [dated_message ''alice'' ''please review'' None,
        dated_message ''bob'' ''looks fine'' (Some example_date_2021),
        dated_message ''alice'' ''v2 attached'' (Some example_date_2020),
        dated_message ''bob'' ''better'' (Some example_date_2020),
        dated_message ''alice'' ''thank you'' None]
       {''address_space''}"

definition dated_builder :: topic_builder where
  "dated_builder =
     \<lparr>threads = [(''fix noderef'', dated_thread)],
      total_loaded = 5, spam_filtered = 0, unrelated_filtered = 0\<rparr>"


text \<open>
  The patch thread as the topics document records it: none of its messages has a parsed
  date, so that \<open>year\<close>, \<open>first_date\<close> and the \<open>date\<close> of every message are \<open>null\<close>.
\<close>

definition patch_thread_json :: json_thread where
  "patch_thread_json =
     \<lparr>jt_subject = Some ''[PATCH] fix cast'', jt_normalized_subject = Some ''fix cast'',
      jt_year = Null, jt_first_date = Null, jt_message_count = Some 5,
      jt_messages = Some (replicate 5 \<lparr>jm_date = Null, jm_timestamp = Absent,
                                        jm_date_str = Some ''2020-01-06 10:00:00''\<rparr>)\<rparr>"

text \<open>A record of the analyzer, with the sender address as it stands in the header.\<close>

definition example_email :: "string \<Rightarrow> string \<Rightarrow> email_data" where
  "example_email address subject =
     \<lparr>e_filepath = ''emails/2020/01/msg.mbox'', e_from = address, e_author_name = address,
      e_author_email = address, e_subject = subject, e_date = None,
      e_date_str = ''2020-01-06 10:00:00'', e_message_id = ''<msg@example.org>'',
      e_body = ''text'', e_year = ''2020'', e_month = ''01''\<rparr>"


text \<open>
  A topics document with two categories; the thread \<open>fix cast\<close> is listed under both,
  and the thread \<open>context tracking\<close> has no date.
\<close>

definition example_json_thread :: "string \<Rightarrow> int field \<Rightarrow> string field \<Rightarrow> json_thread" where
  "example_json_thread normalized year first_date =
     \<lparr>jt_subject = Some (''[PATCH] '' @ normalized), jt_normalized_subject = Some normalized,
      jt_year = year, jt_first_date = first_date, jt_message_count = Some 2,
      jt_messages = Some [\<lparr>jm_date = first_date, jm_timestamp = Absent,
                            jm_date_str = Some ''2020-01-06 10:00:00''\<rparr>,
                          \<lparr>jm_date = first_date, jm_timestamp = Absent,
                            jm_date_str = Some ''2020-01-06 10:00:00''\<rparr>]\<rparr>"

definition example_topics :: "(string \<times> json_thread list) list" where
  "example_topics =
     [(''type_system'',
        [example_json_thread ''fix cast'' (Val 2020) (Val ''2020-01-06T10:00:00''),
         example_json_thread ''endian warning'' (Val 2019) (Val ''2019-05-02T08:30:00'')]),
      (''rfc_proposals'',
        [example_json_thread ''context tracking'' Null Null,
         example_json_thread ''fix cast'' (Val 2020) (Val ''2020-01-06T10:00:00'')])]"


section \<open>The theorems\<close>

subsection \<open>Evaluation on short texts\<close>

text \<open>
  A slice that is longer than the text is the text; stated for the callers so that the
  examples below need not count to the length of the slice.
\<close>

lemma example_parse_date: "parse_date example_strptime ''2020-01-06 10:00:00'' = None"
  by code_simp

lemma example_file_parses:
  assumes "extract_author (name @ '' <'' @ name @ ''@example.org>'')
           = (name, name @ ''@example.org'')"
    and "strip subject \<noteq> []" and "length body \<le> 5000"
  shows "parse_mbox_file example_strptime (example_file name subject body)
         = Some (example_message name subject body)"
proof -
  from assms(2) have "subject \<noteq> []" by (auto simp: strip_def)
  with assms show ?thesis
    by (simp add: parse_mbox_file_def example_file_def example_raw_def example_message_def
        example_parse_date)
qed

lemma is_spam_short:
  "length (m_body msg) \<le> 1000 \<Longrightarrow>
   is_spam msg
   = (list_ex (\<lambda>indicator. isin indicator (lower (m_subject msg))
                 \<or> isin indicator (lower (m_body msg))) SPAM_INDICATORS
      \<or> ((isin ''=?utf-8?b?'' (lower (m_subject msg)) \<or> isin ''=?utf-8?q?'' (lower (m_subject msg)))
         \<and> \<not> list_ex (\<lambda>kw. isin kw (lower (m_subject msg))) SPARSE_KEYWORDS))"
  by (simp add: is_spam_def Let_def lower_def)

lemma is_sparse_related_short:
  "length (m_body msg) \<le> 2000 \<Longrightarrow>
   is_sparse_related msg
   = (list_ex (\<lambda>kw. isin kw (lower (m_subject msg)) \<or> isin kw (lower (m_body msg)))
        SPARSE_KEYWORDS
      \<or> list_ex (\<lambda>contrib. isin contrib (lower (m_author_name msg))) known_contributors)"
  by (simp add: is_sparse_related_def Let_def lower_def)


subsection \<open>Normalization\<close>

lemma strip_reply_None: "match_reply s = None \<Longrightarrow> strip_reply s = s"
  by (subst strip_reply.simps) simp

lemma sub_tag_no_tag: "\<not> has_tag tag s \<Longrightarrow> sub_tag tag s = s"
  by (induction s) auto

lemma hd_dropWhile_isspace:
  "dropWhile isspace s = [] \<or> \<not> isspace (hd (dropWhile isspace s))"
  by (metis hd_dropWhile)

lemma no_leading_collapse_ws:
  "s = [] \<or> \<not> isspace (hd s) \<Longrightarrow> collapse_ws s = [] \<or> \<not> isspace (hd (collapse_ws s))"
  by (cases s) auto

lemma collapsed_collapse_ws: "collapsed (collapse_ws s)"
proof (induction s rule: collapse_ws.induct)
  case 1
  show ?case by simp
next
  case (2 c cs)
  show ?case
  proof (cases "isspace c")
    case True
    have "collapse_ws (dropWhile isspace cs) = []
          \<or> \<not> isspace (hd (collapse_ws (dropWhile isspace cs)))"
      by (rule no_leading_collapse_ws [OF hd_dropWhile_isspace])
    with True 2 show ?thesis by simp
  next
    case False
    with 2 show ?thesis by simp
  qed
qed

lemma collapse_ws_collapsed: "collapsed s \<Longrightarrow> collapse_ws s = s"
proof (induction s)
  case Nil
  show ?case by simp
next
  case (Cons c cs)
  show ?case
  proof (cases "isspace c")
    case True
    with Cons.prems have "dropWhile isspace cs = cs" by (cases cs) auto
    with True Cons show ?thesis by simp
  next
    case False
    with Cons show ?thesis by simp
  qed
qed

lemma collapsed_take: "collapsed s \<Longrightarrow> collapsed (take n s)"
proof (induction s arbitrary: n)
  case Nil
  show ?case by simp
next
  case (Cons c cs)
  show ?case
  proof (cases n)
    case 0
    then show ?thesis by simp
  next
    case (Suc k)
    have "take k cs = [] \<or> hd (take k cs) = hd cs"
      by (cases k; cases cs) auto
    with Cons Suc show ?thesis by auto
  qed
qed

lemma collapsed_dropWhile: "collapsed s \<Longrightarrow> collapsed (dropWhile P s)"
  by (induction s) auto

lemma rev_dropWhile_rev_take:
  "rev (dropWhile P (rev xs)) = take (length xs - length (takeWhile P (rev xs))) xs"
proof -
  have "dropWhile P (rev xs) = drop (length (takeWhile P (rev xs))) (rev xs)"
    by (rule dropWhile_eq_drop)
  then show ?thesis by (simp add: rev_drop)
qed

lemma strip_as_take:
  "strip s = take (length (dropWhile isspace s)
                   - length (takeWhile isspace (rev (dropWhile isspace s))))
                  (dropWhile isspace s)"
  unfolding strip_def by (rule rev_dropWhile_rev_take)

lemma collapsed_strip: "collapsed s \<Longrightarrow> collapsed (strip s)"
  by (subst strip_as_take) (intro collapsed_take collapsed_dropWhile)

lemma no_leading_take:
  "s = [] \<or> \<not> isspace (hd s) \<Longrightarrow> take n s = [] \<or> \<not> isspace (hd (take n s))"
  by (cases n; cases s) auto

lemma no_leading_strip: "strip s = [] \<or> \<not> isspace (hd (strip s))"
  by (subst (1 2) strip_as_take) (rule no_leading_take [OF hd_dropWhile_isspace])

lemma strip_clean:
  "s = [] \<or> \<not> isspace (hd s) \<Longrightarrow> \<not> ends_with_space s \<Longrightarrow> strip s = s"
proof -
  assume a: "s = [] \<or> \<not> isspace (hd s)" and b: "\<not> ends_with_space s"
  from a have 1: "dropWhile isspace s = s" by (cases s) auto
  from b have "rev s = [] \<or> \<not> isspace (hd (rev s))"
    by (auto simp: ends_with_space_def hd_rev)
  then have "dropWhile isspace (rev s) = rev s" by (cases "rev s") auto
  with 1 show ?thesis by (simp add: strip_def)
qed

lemma normalize_subject_shape:
  "collapsed (normalize_subject s) \<and> length (normalize_subject s) \<le> 100
   \<and> (normalize_subject s = [] \<or> \<not> isspace (hd (normalize_subject s)))"
  unfolding normalize_subject_def Let_def
  by (intro conjI collapsed_take collapsed_strip collapsed_collapse_ws
        no_leading_take no_leading_strip) simp

lemma normalize_subject_fixed:
  assumes "match_reply t = None"
    and "\<not> has_tag ''PATCH'' t" and "\<not> has_tag ''RFC'' t" and "\<not> has_tag ''GIT'' t"
    and "collapsed t" and "t = [] \<or> \<not> isspace (hd t)" and "\<not> ends_with_space t"
    and "length t \<le> 100"
  shows "normalize_subject t = t"
  using assms
  by (simp add: normalize_subject_def strip_reply_None sub_tag_no_tag
        collapse_ws_collapsed strip_clean)

text \<open>
  Claim C2, as stated: normalizing is idempotent, \<open>normalize (normalize s) = normalize s\<close>
  for every subject. It fails: removing the tag of \<open>[PATCH] Re: foo\<close> brings a reply
  marker to the head of the string, where only a second normalization removes it.
\<close>

theorem normalize_subject_not_idempotent:
  "normalize_subject (normalize_subject ''[PATCH] Re: foo'')
   \<noteq> normalize_subject ''[PATCH] Re: foo''"
proof -
  have 1: "normalize_subject ''[PATCH] Re: foo'' = ''Re: foo''"
    by (simp add: normalize_subject_def strip_def isspace_def match_tag_def)
  have 2: "normalize_subject ''Re: foo'' = ''foo''"
    by (simp add: normalize_subject_def strip_def isspace_def match_tag_def)
  show ?thesis unfolding 1 2 by simp
qed

lemma length_strip_reply: "length (strip_reply s) \<le> length s"
proof (induction s rule: strip_reply.induct)
  case (1 s)
  show ?case
  proof (cases "match_reply s")
    case None
    then show ?thesis by (simp add: strip_reply_None)
  next
    case (Some r)
    then have "strip_reply s = strip_reply r" by (subst strip_reply.simps) simp
    moreover have "length (strip_reply r) \<le> length r" using Some by (rule 1)
    moreover have "length r < length s" using Some by (rule match_reply_shorter)
    ultimately show ?thesis by simp
  qed
qed

lemma length_strip_reply_less:
  assumes "match_reply s \<noteq> None"
  shows "length (strip_reply s) < length s"
proof -
  from assms obtain r where r: "match_reply s = Some r" by auto
  then have "strip_reply s = strip_reply r" by (subst strip_reply.simps) simp
  moreover have "length (strip_reply r) \<le> length r" by (rule length_strip_reply)
  moreover have "length r < length s" using r by (rule match_reply_shorter)
  ultimately show ?thesis by simp
qed

lemma length_sub_tag: "length (sub_tag tag s) \<le> length s"
proof (induction tag s rule: sub_tag.induct)
  case (1 tag)
  show ?case by simp
next
  case (2 tag c cs)
  show ?case
  proof (cases "match_tag tag (c # cs)")
    case None
    with 2 show ?thesis by simp
  next
    case (Some r)
    then have "length (sub_tag tag r) \<le> length r" by (rule 2)
    moreover have "length r < length (c # cs)" using Some by (rule match_tag_shorter)
    ultimately show ?thesis using Some by simp
  qed
qed

lemma length_sub_tag_less: "has_tag tag s \<Longrightarrow> length (sub_tag tag s) < length s"
proof (induction s)
  case Nil
  then show ?case by simp
next
  case (Cons c cs)
  show ?case
  proof (cases "match_tag tag (c # cs)")
    case None
    with Cons show ?thesis by simp
  next
    case (Some r)
    have "length (sub_tag tag r) \<le> length r" by (rule length_sub_tag)
    moreover have "length r < length (c # cs)" using Some by (rule match_tag_shorter)
    ultimately show ?thesis using Some by simp
  qed
qed

lemma length_collapse_ws: "length (collapse_ws s) \<le> length s"
proof (induction s rule: collapse_ws.induct)
  case 1
  show ?case by simp
next
  case (2 c cs)
  show ?case
  proof (cases "isspace c")
    case True
    then have "length (collapse_ws (dropWhile isspace cs)) \<le> length (dropWhile isspace cs)"
      by (rule 2)
    also have "\<dots> \<le> length cs" by (rule length_dropWhile_le)
    finally show ?thesis using True by simp
  next
    case False
    with 2 show ?thesis by simp
  qed
qed

lemma length_strip: "length (strip s) \<le> length s"
proof -
  have "length (strip s) \<le> length (dropWhile isspace s)"
    unfolding strip_def length_rev by (rule order_trans [OF length_dropWhile_le]) simp
  also have "\<dots> \<le> length s" by (rule length_dropWhile_le)
  finally show ?thesis .
qed

lemma length_strip_less:
  assumes "s = [] \<or> \<not> isspace (hd s)" and "ends_with_space s"
  shows "length (strip s) < length s"
proof -
  from assms(1) have 1: "dropWhile isspace s = s" by (cases s) auto
  from assms(2) obtain c r where r: "rev s = c # r" and c: "isspace c"
    by (cases "rev s") (auto simp: ends_with_space_def last_rev [symmetric] hd_rev)
  have "length (dropWhile isspace (rev s)) \<le> length r"
    unfolding r using c by (simp add: length_dropWhile_le)
  also have "\<dots> < length s" using r by (metis length_Cons length_rev lessI)
  finally show ?thesis by (simp add: strip_def 1)
qed

lemma normalize_subject_fixed_iff:
  assumes "collapsed t" and "t = [] \<or> \<not> isspace (hd t)" and "length t \<le> 100"
  shows "normalize_subject t = t \<longleftrightarrow>
         match_reply t = None \<and> \<not> has_tag ''PATCH'' t \<and> \<not> has_tag ''RFC'' t
         \<and> \<not> has_tag ''GIT'' t \<and> \<not> ends_with_space t"
proof
  assume "match_reply t = None \<and> \<not> has_tag ''PATCH'' t \<and> \<not> has_tag ''RFC'' t
         \<and> \<not> has_tag ''GIT'' t \<and> \<not> ends_with_space t"
  with assms show "normalize_subject t = t" by (intro normalize_subject_fixed) simp_all
next
  assume fixed: "normalize_subject t = t"
  let ?s1 = "strip_reply t"
  let ?s2 = "sub_tag ''PATCH'' ?s1"
  let ?s3 = "sub_tag ''RFC'' ?s2"
  let ?s4 = "sub_tag ''GIT'' ?s3"
  let ?s5 = "collapse_ws ?s4"
  have n: "normalize_subject t = take 100 (strip ?s5)"
    by (simp add: normalize_subject_def)
  have l6: "length (normalize_subject t) \<le> length (strip ?s5)" unfolding n by simp
  have l5: "length (strip ?s5) \<le> length ?s5" by (rule length_strip)
  have l4: "length ?s5 \<le> length ?s4" by (rule length_collapse_ws)
  have l3: "length ?s4 \<le> length ?s3" by (rule length_sub_tag)
  have l2: "length ?s3 \<le> length ?s2" by (rule length_sub_tag)
  have l1: "length ?s2 \<le> length ?s1" by (rule length_sub_tag)
  have l0: "length ?s1 \<le> length t" by (rule length_strip_reply)
  have len: "length (normalize_subject t) = length t" by (simp add: fixed)
  have a: "match_reply t = None"
  proof (rule ccontr)
    assume "match_reply t \<noteq> None"
    then have "length ?s1 < length t" by (rule length_strip_reply_less)
    with l6 l5 l4 l3 l2 l1 len show False by simp
  qed
  then have e1: "?s1 = t" by (rule strip_reply_None)
  have b: "\<not> has_tag ''PATCH'' t"
  proof
    assume "has_tag ''PATCH'' t"
    then have "length (sub_tag ''PATCH'' t) < length t" by (rule length_sub_tag_less)
    with l6 l5 l4 l3 l2 len show False unfolding e1 by simp
  qed
  then have e2: "?s2 = t" unfolding e1 by (rule sub_tag_no_tag)
  have c: "\<not> has_tag ''RFC'' t"
  proof
    assume "has_tag ''RFC'' t"
    then have "length (sub_tag ''RFC'' t) < length t" by (rule length_sub_tag_less)
    with l6 l5 l4 l3 len show False unfolding e2 by simp
  qed
  then have e3: "?s3 = t" unfolding e2 by (rule sub_tag_no_tag)
  have d: "\<not> has_tag ''GIT'' t"
  proof
    assume "has_tag ''GIT'' t"
    then have "length (sub_tag ''GIT'' t) < length t" by (rule length_sub_tag_less)
    with l6 l5 l4 len show False unfolding e3 by simp
  qed
  then have e4: "?s4 = t" unfolding e3 by (rule sub_tag_no_tag)
  have e5: "?s5 = t" unfolding e4 using assms(1) by (rule collapse_ws_collapsed)
  have e: "\<not> ends_with_space t"
  proof
    assume "ends_with_space t"
    with assms(2) have "length (strip t) < length t" by (rule length_strip_less)
    with l6 len show False unfolding e5 by simp
  qed
  from a b c d e show "match_reply t = None \<and> \<not> has_tag ''PATCH'' t \<and> \<not> has_tag ''RFC'' t
         \<and> \<not> has_tag ''GIT'' t \<and> \<not> ends_with_space t" by simp
qed

text \<open>
  Claim C2, amended: a second normalization leaves a normalized subject unchanged exactly
  when the normalized subject does not start with a reply marker, holds no \<open>[PATCH\<dots>]\<close>,
  \<open>[RFC\<dots>]\<close> or \<open>[GIT\<dots>]\<close> tag, and does not end in white space (which the cut at 100
  characters can leave behind).
\<close>

theorem normalize_subject_idempotent_iff:
  "normalize_subject (normalize_subject s) = normalize_subject s \<longleftrightarrow>
   match_reply (normalize_subject s) = None
   \<and> \<not> has_tag ''PATCH'' (normalize_subject s)
   \<and> \<not> has_tag ''RFC'' (normalize_subject s)
   \<and> \<not> has_tag ''GIT'' (normalize_subject s)
   \<and> \<not> ends_with_space (normalize_subject s)"
  using normalize_subject_shape [of s] by (intro normalize_subject_fixed_iff) simp_all

text \<open>The amended claim at the subject \<open>Re: foo\<close>, whose normalization is \<open>foo\<close>.\<close>

theorem normalize_subject_idempotent_iff_witness:
  "match_reply (normalize_subject ''Re: foo'') = None
   \<and> \<not> has_tag ''PATCH'' (normalize_subject ''Re: foo'')
   \<and> \<not> has_tag ''RFC'' (normalize_subject ''Re: foo'')
   \<and> \<not> has_tag ''GIT'' (normalize_subject ''Re: foo'')
   \<and> \<not> ends_with_space (normalize_subject ''Re: foo'')
   \<and> normalize_subject ''Re: foo'' = ''foo''
   \<and> normalize_subject (normalize_subject ''Re: foo'') = normalize_subject ''Re: foo''"
proof -
  have n: "normalize_subject ''Re: foo'' = ''foo''"
    by (simp add: normalize_subject_def strip_def isspace_def match_tag_def)
  have h1: "match_reply (normalize_subject ''Re: foo'') = None"
    unfolding n by simp
  have h2: "\<not> has_tag ''PATCH'' (normalize_subject ''Re: foo'')"
    unfolding n by (simp add: match_tag_def)
  have h3: "\<not> has_tag ''RFC'' (normalize_subject ''Re: foo'')"
    unfolding n by (simp add: match_tag_def)
  have h4: "\<not> has_tag ''GIT'' (normalize_subject ''Re: foo'')"
    unfolding n by (simp add: match_tag_def)
  have h5: "\<not> ends_with_space (normalize_subject ''Re: foo'')"
    unfolding n by (simp add: ends_with_space_def isspace_def)
  have c: "normalize_subject (normalize_subject ''Re: foo'') = normalize_subject ''Re: foo''"
    by (rule normalize_subject_idempotent_iff [of "''Re: foo''", THEN iffD2])
       (intro conjI h1 h2 h3 h4 h5)
  show ?thesis by (intro conjI h1 h2 h3 h4 h5 n c)
qed


subsection \<open>Decisions\<close>

lemma collect_map:
  "collect f xs = Inr ys \<Longrightarrow> list_all2 (\<lambda>x y. f x = Inr y) xs ys"
  by (induction xs arbitrary: ys) (auto split: sum.splits)

lemma thread_decision_fields:
  "thread_decision t = Inr d \<Longrightarrow>
     d_outcome d = thread_outcome (t_messages t)
     \<and> d_message_count d = length (t_messages t)
     \<and> d_participants d = t_participants t"
  by (auto simp: thread_decision_def Let_def split: sum.splits)


lemma set_significant_threads:
  "set (significant_threads tb)
   = {t \<in> snd ` set (threads tb). length (t_messages t) \<ge> 5 \<and> card (t_participants t) \<ge> 2}"
  by (auto simp: significant_threads_def)










lemma sorted_desc_rev_sort_key:
  "sorted_wrt (\<lambda>a b. f a \<ge> f b) (rev (sort_key f xs))"
proof -
  have "sorted (map f (sort_key f xs))" by (rule sorted_sort_key)
  then have "sorted_wrt (\<lambda>a b. f a \<le> f b) (sort_key f xs)"
    by (simp add: sorted_wrt_map)
  then show ?thesis by (simp add: sorted_wrt_rev)
qed

lemma list_all2_right:
  "list_all2 P xs ys \<Longrightarrow> y \<in> set ys \<Longrightarrow> \<exists>x\<in>set xs. P x y"
  by (induction rule: list_all2_induct) auto

lemma collect_length: "collect f xs = Inr ys \<Longrightarrow> length ys = length xs"
  by (induction xs arbitrary: ys) (auto split: sum.splits)

text \<open>
  Claim C6: every thread selected as significant has at least 5 messages and at least 2
  distinct participants, no thread below either threshold is selected, and the selected
  threads, and the decisions extracted from them, are in descending order of message
  count.
\<close>

theorem significant_threads_thresholds:
  "(\<forall>t\<in>set (significant_threads tb).
       length (t_messages t) \<ge> 5 \<and> card (t_participants t) \<ge> 2)
   \<and> sorted_wrt (\<lambda>a b. length (t_messages a) \<ge> length (t_messages b)) (significant_threads tb)
   \<and> (extract_key_decisions tb = Inr ds \<longrightarrow>
        (\<forall>d\<in>set ds. d_message_count d \<ge> 5 \<and> card (d_participants d) \<ge> 2)
        \<and> sorted_wrt (\<lambda>a b. d_message_count a \<ge> d_message_count b) ds)"
proof (intro conjI impI)
  show 1: "\<forall>t\<in>set (significant_threads tb).
       length (t_messages t) \<ge> 5 \<and> card (t_participants t) \<ge> 2"
    by (simp add: set_significant_threads)
  show 2: "sorted_wrt (\<lambda>a b. length (t_messages a) \<ge> length (t_messages b)) (significant_threads tb)"
    unfolding significant_threads_def by (rule sorted_desc_rev_sort_key)
  assume "extract_key_decisions tb = Inr ds"
  then have l: "list_all2 (\<lambda>t d. thread_decision t = Inr d) (take 50 (significant_threads tb)) ds"
    unfolding extract_key_decisions_def by (rule collect_map)
  have f: "list_all2 (\<lambda>t d. d_message_count d = length (t_messages t)
                        \<and> d_participants d = t_participants t)
               (take 50 (significant_threads tb)) ds"
    by (rule list_all2_mono [OF l]) (simp add: thread_decision_fields)
  show "\<forall>d\<in>set ds. d_message_count d \<ge> 5 \<and> card (d_participants d) \<ge> 2"
  proof
    fix d assume "d \<in> set ds"
    then obtain t where "t \<in> set (take 50 (significant_threads tb))"
      and "d_message_count d = length (t_messages t) \<and> d_participants d = t_participants t"
      using list_all2_right [OF f] by blast
    moreover then have "t \<in> set (significant_threads tb)" by (meson in_set_takeD)
    ultimately show "d_message_count d \<ge> 5 \<and> card (d_participants d) \<ge> 2"
      using 1 by auto
  qed
  have m: "map d_message_count ds = map (\<lambda>t. length (t_messages t)) (take 50 (significant_threads tb))"
    using f by (induction rule: list_all2_induct) auto
  have "sorted_wrt (\<lambda>a b. length (t_messages a) \<ge> length (t_messages b)) (take 50 (significant_threads tb))"
    using 2 by (rule sorted_wrt_take)
  then have "sorted_wrt (\<ge>) (map (\<lambda>t. length (t_messages t)) (take 50 (significant_threads tb)))"
    by (simp add: sorted_wrt_map)
  then have "sorted_wrt (\<ge>) (map d_message_count ds)" by (simp add: m)
  then show "sorted_wrt (\<lambda>a b. d_message_count a \<ge> d_message_count b) ds"
    by (simp add: sorted_wrt_map)
qed


text \<open>
  Claim C6 on the example: of the four threads, the proposal (6 messages) and the patch
  (5 messages) are selected, in this order; the monologue and the single message are not.
\<close>

theorem significant_threads_thresholds_witness:
  "map (\<lambda>t. (t_normalized_subject t, length (t_messages t), card (t_participants t)))
       (map snd (threads example_builder))
     = [(''fix cast'', 5, 3), (''context tracking'', 6, 2),
        (''sparse: endian warning'', 5, 1), (''question about sparse'', 1, 1)]
   \<and> map t_normalized_subject (significant_threads example_builder)
     = [''context tracking'', ''fix cast'']
   \<and> list_all (\<lambda>t. length (t_messages t) \<ge> 5 \<and> card (t_participants t) \<ge> 2)
        (significant_threads example_builder)
   \<and> sorted_wrt (\<lambda>a b. length (t_messages a) \<ge> length (t_messages b))
        (significant_threads example_builder)
   \<and> (\<exists>ds. extract_key_decisions example_builder = Inr ds
          \<and> map d_message_count ds = [6, 5]
          \<and> (\<forall>d\<in>set ds. d_message_count d \<ge> 5 \<and> card (d_participants d) \<ge> 2)
          \<and> sorted_wrt (\<lambda>a b. d_message_count a \<ge> d_message_count b) ds)"
proof -
  have a: "map (\<lambda>t. (t_normalized_subject t, length (t_messages t), card (t_participants t)))
       (map snd (threads example_builder))
     = [(''fix cast'', 5, 3), (''context tracking'', 6, 2),
        (''sparse: endian warning'', 5, 1), (''question about sparse'', 1, 1)]"
    by code_simp
  have b: "map t_normalized_subject (significant_threads example_builder)
     = [''context tracking'', ''fix cast'']"
    by code_simp
  have "case extract_key_decisions example_builder of
          Inl e \<Rightarrow> False
        | Inr ds \<Rightarrow> map d_message_count ds = [6, 5]"
    by code_simp
  then obtain ds where h: "extract_key_decisions example_builder = Inr ds"
    and c: "map d_message_count ds = [6, 5]"
    by (cases "extract_key_decisions example_builder") auto
  note t = significant_threads_thresholds [of example_builder ds]
  note t1 = t [THEN conjunct1, folded list_all_iff]
  note t2 = t [THEN conjunct2, THEN conjunct1]
  note t3 = t [THEN conjunct2, THEN conjunct2, THEN mp, OF h]
  have t4: "\<exists>ds. extract_key_decisions example_builder = Inr ds
          \<and> map d_message_count ds = [6, 5]
          \<and> (\<forall>d\<in>set ds. d_message_count d \<ge> 5 \<and> card (d_participants d) \<ge> 2)
          \<and> sorted_wrt (\<lambda>a b. d_message_count a \<ge> d_message_count b) ds"
    by (rule exI [of _ ds]) (intro conjI h c t3 [THEN conjunct1] t3 [THEN conjunct2])
  from a b t1 t2 t4 show ?thesis by (intro conjI)
qed

subsection \<open>Classification\<close>

text \<open>
  Claim C5: the classifier never returns an empty list of labels, and for a record that
  matches no keyword of any category it returns exactly the label \<open>general\<close>.
\<close>

theorem categorize_message_fallback:
  "categorize_message msg \<noteq> []
   \<and> ((\<forall>(cat_id, keywords)\<in>set TOPIC_CATEGORIES. \<forall>kw\<in>set keywords.
          \<not> isin kw (lower (m_subject msg) @ '' '' @ take 2000 (lower (m_body msg))))
        \<longrightarrow> categorize_message msg = [''general''])"
proof (intro conjI impI)
  show "categorize_message msg \<noteq> []"
    by (simp add: categorize_message_def Let_def)
next
  let ?text = "lower (m_subject msg) @ '' '' @ take 2000 (lower (m_body msg))"
  assume a: "\<forall>(cat_id, keywords)\<in>set TOPIC_CATEGORIES. \<forall>kw\<in>set keywords. \<not> isin kw ?text"
  have "filter (\<lambda>(cat_id, keywords). list_ex (\<lambda>kw. isin kw ?text) keywords) TOPIC_CATEGORIES = []"
    unfolding filter_empty_conv list_ex_iff using a by fastforce
  then show "categorize_message msg = [''general'']"
    by (simp add: categorize_message_def Let_def)
qed


text \<open>Claim C5 on a record that matches no keyword of any category.\<close>

theorem categorize_message_fallback_witness:
  "list_all (\<lambda>(cat_id, keywords). list_all (\<lambda>kw.
       \<not> isin kw (lower (m_subject (example_message ''grace'' ''question about sparse''
                                       ''how do I run it?''))
                    @ '' '' @ take 2000 (lower (m_body (example_message ''grace''
                                       ''question about sparse'' ''how do I run it?'')))))
       keywords) TOPIC_CATEGORIES
   \<and> categorize_message (example_message ''grace'' ''question about sparse'' ''how do I run it?'')
     = [''general'']"
proof -
  let ?m = "example_message ''grace'' ''question about sparse'' ''how do I run it?''"
  have t: "take 2000 (lower (m_body ?m)) = lower (m_body ?m)"
    by (simp add: lower_def example_message_def)
  have a: "list_all (\<lambda>(cat_id, keywords). list_all (\<lambda>kw.
       \<not> isin kw (lower (m_subject ?m) @ '' '' @ take 2000 (lower (m_body ?m))))
       keywords) TOPIC_CATEGORIES"
    unfolding t by code_simp
  then have h: "\<forall>(cat_id, keywords)\<in>set TOPIC_CATEGORIES. \<forall>kw\<in>set keywords.
       \<not> isin kw (lower (m_subject ?m) @ '' '' @ take 2000 (lower (m_body ?m)))"
    unfolding list_all_iff by fast
  have "categorize_message ?m = [''general'']"
    by (rule categorize_message_fallback [of ?m, THEN conjunct2, THEN mp, OF h])
  with a show ?thesis by (intro conjI)
qed

subsection \<open>Threads\<close>

lemma process_message_dropped:
  "is_spam m \<or> \<not> is_sparse_related m \<Longrightarrow> threads (process_message digest m tb) = threads tb"
  by (auto simp: process_message_def Let_def)

lemma process_message_kept:
  assumes "\<not> is_spam m" and "is_sparse_related m"
  obtains v where
    "threads (process_message digest m tb)
     = AList.update (thread_key digest (normalize_subject (m_subject m))) v (threads tb)"
    and "t_messages v
     = (case map_of (threads tb) (thread_key digest (normalize_subject (m_subject m))) of
          None \<Rightarrow> [] | Some t \<Rightarrow> t_messages t) @ [m]"
proof -
  let ?k = "thread_key digest (normalize_subject (m_subject m))"
  let ?t = "case map_of (threads tb) ?k of None \<Rightarrow> EmailThread (m_subject m) | Some t \<Rightarrow> t"
  let ?v = "(add_message ?t m)\<lparr>t_categories :=
              t_categories (add_message ?t m) \<union> set (categorize_message m)\<rparr>"
  have 1: "threads (process_message digest m tb) = AList.update ?k ?v (threads tb)"
    using assms by (simp add: process_message_def Let_def)
  have 2: "t_messages ?v = (case map_of (threads tb) ?k of None \<Rightarrow> [] | Some t \<Rightarrow> t_messages t) @ [m]"
    by (simp add: add_message_def EmailThread_def split: option.split)
  from 1 2 show ?thesis by (rule that)
qed

lemma process_message_threads_cong:
  "threads tb = threads tb' \<Longrightarrow>
   threads (process_message digest m tb) = threads (process_message digest m tb')"
  by (simp add: process_message_def Let_def)

lemma process_records_threads_cong:
  "threads tb = threads tb' \<Longrightarrow>
   threads (process_records digest msgs tb) = threads (process_records digest msgs tb')"
  unfolding process_records_def
proof (induction msgs arbitrary: tb tb')
  case Nil
  then show ?case by simp
next
  case (Cons m msgs)
  have "threads (process_message digest m tb) = threads (process_message digest m tb')"
    using Cons.prems by (rule process_message_threads_cong)
  from Cons.IH [OF this] show ?case by simp
qed

lemma process_message_keeps:
  assumes "map_of (threads tb) k = Some t" and "x \<in> set (t_messages t)"
  shows "\<exists>t'. map_of (threads (process_message digest m tb)) k = Some t' \<and> x \<in> set (t_messages t')"
proof (cases "is_spam m \<or> \<not> is_sparse_related m")
  case True
  then show ?thesis using assms by (simp add: process_message_dropped)
next
  case False
  then obtain v where 1: "threads (process_message digest m tb)
     = AList.update (thread_key digest (normalize_subject (m_subject m))) v (threads tb)"
    and 2: "t_messages v
     = (case map_of (threads tb) (thread_key digest (normalize_subject (m_subject m))) of
          None \<Rightarrow> [] | Some t \<Rightarrow> t_messages t) @ [m]"
    using process_message_kept [of m digest tb] by blast
  show ?thesis
  proof (cases "k = thread_key digest (normalize_subject (m_subject m))")
    case True
    with assms 2 have "x \<in> set (t_messages v)" by simp
    with True show ?thesis unfolding 1 by (simp add: update_conv')
  next
    case False
    with assms show ?thesis unfolding 1 by (simp add: update_conv')
  qed
qed

lemma process_message_adds:
  assumes "\<not> is_spam m" and "is_sparse_related m"
  shows "\<exists>t'. map_of (threads (process_message digest m tb))
                 (thread_key digest (normalize_subject (m_subject m))) = Some t'
              \<and> m \<in> set (t_messages t')"
proof -
  from assms obtain v where 1: "threads (process_message digest m tb)
     = AList.update (thread_key digest (normalize_subject (m_subject m))) v (threads tb)"
    and 2: "t_messages v
     = (case map_of (threads tb) (thread_key digest (normalize_subject (m_subject m))) of
          None \<Rightarrow> [] | Some t \<Rightarrow> t_messages t) @ [m]"
    using process_message_kept [of m digest tb] by blast
  from 2 have "m \<in> set (t_messages v)" by simp
  then show ?thesis unfolding 1 by (simp add: update_conv')
qed

lemma process_records_keeps:
  assumes "map_of (threads tb) k = Some t" and "x \<in> set (t_messages t)"
  shows "\<exists>t'. map_of (threads (process_records digest msgs tb)) k = Some t' \<and> x \<in> set (t_messages t')"
  using assms unfolding process_records_def
proof (induction msgs arbitrary: tb t)
  case Nil
  then show ?case by simp
next
  case (Cons m msgs)
  from process_message_keeps [OF Cons.prems, of digest m]
  obtain t' where "map_of (threads (process_message digest m tb)) k = Some t'" and "x \<in> set (t_messages t')"
    by blast
  then show ?case using Cons.IH by simp
qed

lemma retained_in_thread:
  assumes "m \<in> set msgs" and "\<not> is_spam m" and "is_sparse_related m"
  shows "\<exists>t. map_of (threads (process_records digest msgs tb))
                (thread_key digest (normalize_subject (m_subject m))) = Some t
             \<and> m \<in> set (t_messages t)"
  using assms(1)
proof (induction msgs arbitrary: tb)
  case Nil
  then show ?case by simp
next
  case (Cons x msgs)
  show ?case
  proof (cases "m = x")
    case True
    from process_message_adds [OF assms(2,3), of digest tb]
    obtain t' where "map_of (threads (process_message digest m tb))
                 (thread_key digest (normalize_subject (m_subject m))) = Some t'"
      and "m \<in> set (t_messages t')" by blast
    from process_records_keeps [OF this, of digest msgs] True
    show ?thesis by (simp add: process_records_def)
  next
    case False
    with Cons.prems have "m \<in> set msgs" by simp
    from Cons.IH [OF this, of "process_message digest x tb"]
    show ?thesis by (simp add: process_records_def)
  qed
qed

lemma set_update_subset: "set (AList.update k v al) \<subseteq> insert (k, v) (set al)"
  by (induction al) (auto simp: AList.update.simps)

lemma keyed_process_message:
  assumes "keyed digest (threads tb)"
  shows "keyed digest (threads (process_message digest m tb))"
proof (cases "is_spam m \<or> \<not> is_sparse_related m")
  case True
  then show ?thesis using assms by (simp add: process_message_dropped)
next
  case False
  let ?k = "thread_key digest (normalize_subject (m_subject m))"
  let ?P = "\<lambda>k x. k = thread_key digest (normalize_subject (m_subject x))
            \<and> \<not> is_spam x \<and> is_sparse_related x"
  from False obtain v where eq: "threads (process_message digest m tb) = AList.update ?k v (threads tb)"
    and v: "t_messages v = (case map_of (threads tb) ?k of None \<Rightarrow> [] | Some t \<Rightarrow> t_messages t) @ [m]"
    using process_message_kept [of m digest tb] by blast
  have old: "\<forall>x\<in>set (case map_of (threads tb) ?k of None \<Rightarrow> [] | Some t \<Rightarrow> t_messages t). ?P ?k x"
  proof (cases "map_of (threads tb) ?k")
    case None
    then show ?thesis by simp
  next
    case (Some t)
    then have "(?k, t) \<in> set (threads tb)" by (rule map_of_SomeD)
    with assms have "\<forall>x\<in>set (t_messages t). ?P ?k x"
      unfolding keyed_def by blast
    with Some show ?thesis by simp
  qed
  have new: "\<forall>x\<in>set (t_messages v). ?P ?k x"
    unfolding v using old False by simp
  have d: "distinct (map fst (AList.update ?k v (threads tb)))"
    using assms by (simp add: keyed_def distinct_update)
  have "\<forall>(k, t)\<in>set (AList.update ?k v (threads tb)). \<forall>x\<in>set (t_messages t). ?P k x"
  proof (intro ballI, clarify)
    fix k t x assume "(k, t) \<in> set (AList.update ?k v (threads tb))" and x: "x \<in> set (t_messages t)"
    then have "(k, t) = (?k, v) \<or> (k, t) \<in> set (threads tb)"
      using set_update_subset by fastforce
    then show "k = thread_key digest (normalize_subject (m_subject x))
            \<and> \<not> is_spam x \<and> is_sparse_related x"
    proof
      assume "(k, t) = (?k, v)"
      with new x show ?thesis by simp
    next
      assume "(k, t) \<in> set (threads tb)"
      with assms x show ?thesis unfolding keyed_def by blast
    qed
  qed
  with d show ?thesis unfolding eq keyed_def by simp
qed

lemma keyed_process_records:
  "keyed digest (threads tb) \<Longrightarrow> keyed digest (threads (process_records digest msgs tb))"
  unfolding process_records_def
proof (induction msgs arbitrary: tb)
  case Nil
  then show ?case by simp
next
  case (Cons m msgs)
  from Cons.IH [OF keyed_process_message [OF Cons.prems]] show ?case by simp
qed

lemma keyed_load: "keyed digest (threads (load_and_process_emails strptime digest files))"
  unfolding load_and_process_emails_def
  by (rule keyed_process_records) (simp add: keyed_def)

lemma map_filter_append: "List.map_filter f (xs @ ys) = List.map_filter f xs @ List.map_filter f ys"
  by (simp add: List.map_filter_def)

lemma in_map_filter: "f x = Some y \<Longrightarrow> x \<in> set xs \<Longrightarrow> y \<in> set (List.map_filter f xs)"
  by (induction xs) (auto simp: List.map_filter_simps split: option.splits)

lemma process_records_append:
  "process_records digest (xs @ ys) tb = process_records digest ys (process_records digest xs tb)"
  by (simp add: process_records_def)

lemma process_records_Cons:
  "process_records digest (x # xs) tb = process_records digest xs (process_message digest x tb)"
  by (simp add: process_records_def)

lemma process_records_skip:
  assumes "is_spam m \<or> \<not> is_sparse_related m"
  shows "threads (process_records digest (xs @ m # ys) tb) = threads (process_records digest (xs @ ys) tb)"
proof -
  have "threads (process_message digest m (process_records digest xs tb)) = threads (process_records digest xs tb)"
    using assms by (rule process_message_dropped)
  then have "threads (process_records digest ys (process_message digest m (process_records digest xs tb)))
     = threads (process_records digest ys (process_records digest xs tb))"
    by (rule process_records_threads_cong)
  then show ?thesis by (simp add: process_records_append process_records_Cons)
qed

lemma spam_indicator_is_spam:
  assumes "\<exists>indicator\<in>set SPAM_INDICATORS.
             isin indicator (lower (m_subject m)) \<or> isin indicator (take 1000 (lower (m_body m)))"
  shows "is_spam m"
  using assms by (simp add: is_spam_def Let_def list_ex_iff)

text \<open>
  Claim C4: a record whose lower-cased subject, or the first 1000 characters of whose
  lower-cased body, contains a spam indicator is dropped before classification: the
  filter flags it, the loop leaves the threads as they are, the run ends with the threads
  it would have without the file of this record, and no thread of any run holds the
  record, whatever else its subject and body contain.
\<close>

theorem spam_record_dropped:
  assumes "\<exists>indicator\<in>set SPAM_INDICATORS.
             isin indicator (lower (m_subject m)) \<or> isin indicator (take 1000 (lower (m_body m)))"
  shows "is_spam m
     \<and> threads (process_message digest m tb) = threads tb
     \<and> (parse_mbox_file strptime f = Some m \<longrightarrow>
          threads (load_and_process_emails strptime digest (before @ f # after))
          = threads (load_and_process_emails strptime digest (before @ after)))
     \<and> (\<forall>(k, t)\<in>set (threads (load_and_process_emails strptime digest files)).
           m \<notin> set (t_messages t))"
proof (intro conjI impI)
  show s: "is_spam m" using assms by (rule spam_indicator_is_spam)
  then show "threads (process_message digest m tb) = threads tb"
    by (simp add: process_message_dropped)
  show "\<forall>(k, t)\<in>set (threads (load_and_process_emails strptime digest files)). m \<notin> set (t_messages t)"
    using keyed_load [of digest strptime files] s unfolding keyed_def by blast
  assume "parse_mbox_file strptime f = Some m"
  then have "List.map_filter (parse_mbox_file strptime) (before @ f # after)
     = List.map_filter (parse_mbox_file strptime) before @ m # List.map_filter (parse_mbox_file strptime) after"
    by (simp add: List.map_filter_def)
  then show "threads (load_and_process_emails strptime digest (before @ f # after))
          = threads (load_and_process_emails strptime digest (before @ after))"
    using s by (simp add: load_and_process_emails_def process_records_skip map_filter_append)
qed


text \<open>
  Claim C4 on the record of the specification: the subject names an inheritance, the body
  names sparse, and the record is related to sparse by its keywords, yet it is dropped.
\<close>

theorem spam_record_dropped_witness:
  "(\<exists>indicator\<in>set SPAM_INDICATORS.
       isin indicator (lower (m_subject (example_message ''mallory''
          ''URGENT: inheritance fund transfer'' ''sparse checker users, reply today'')))
       \<or> isin indicator (take 1000 (lower (m_body (example_message ''mallory''
          ''URGENT: inheritance fund transfer'' ''sparse checker users, reply today'')))))
   \<and> is_sparse_related (example_message ''mallory''
          ''URGENT: inheritance fund transfer'' ''sparse checker users, reply today'')
   \<and> is_spam (example_message ''mallory''
          ''URGENT: inheritance fund transfer'' ''sparse checker users, reply today'')
   \<and> threads (process_message example_digest (example_message ''mallory''
          ''URGENT: inheritance fund transfer'' ''sparse checker users, reply today'')
          example_builder) = threads example_builder
   \<and> parse_mbox_file example_strptime (example_file ''mallory''
          ''URGENT: inheritance fund transfer'' ''sparse checker users, reply today'')
     = Some (example_message ''mallory''
          ''URGENT: inheritance fund transfer'' ''sparse checker users, reply today'')
   \<and> threads (load_and_process_emails example_strptime example_digest
         ([example_file ''alice'' ''[PATCH] fix cast'' ''please review'']
          @ example_file ''mallory'' ''URGENT: inheritance fund transfer''
              ''sparse checker users, reply today''
          # [example_file ''bob'' ''Re: [PATCH] fix cast'' ''looks fine'']))
     = threads (load_and_process_emails example_strptime example_digest
         ([example_file ''alice'' ''[PATCH] fix cast'' ''please review'']
          @ [example_file ''bob'' ''Re: [PATCH] fix cast'' ''looks fine'']))
   \<and> list_all (\<lambda>(k, t). example_message ''mallory'' ''URGENT: inheritance fund transfer''
                          ''sparse checker users, reply today'' \<notin> set (t_messages t))
        (threads (load_and_process_emails example_strptime example_digest
          [example_file ''alice'' ''[PATCH] fix cast'' ''please review'',
           example_file ''mallory'' ''URGENT: inheritance fund transfer''
              ''sparse checker users, reply today'',
           example_file ''bob'' ''Re: [PATCH] fix cast'' ''looks fine'']))"
proof -
  let ?m = "example_message ''mallory'' ''URGENT: inheritance fund transfer''
              ''sparse checker users, reply today''"
  let ?f = "example_file ''mallory'' ''URGENT: inheritance fund transfer''
              ''sparse checker users, reply today''"
  let ?before = "[example_file ''alice'' ''[PATCH] fix cast'' ''please review'']"
  let ?after = "[example_file ''bob'' ''Re: [PATCH] fix cast'' ''looks fine'']"
  let ?files = "[example_file ''alice'' ''[PATCH] fix cast'' ''please review'', ?f,
                 example_file ''bob'' ''Re: [PATCH] fix cast'' ''looks fine'']"
  have i: "isin ''inheritance'' (lower (m_subject ?m))" by code_simp
  have "''inheritance'' \<in> set SPAM_INDICATORS" by (simp add: SPAM_INDICATORS_def)
  then have h: "\<exists>indicator\<in>set SPAM_INDICATORS.
       isin indicator (lower (m_subject ?m)) \<or> isin indicator (take 1000 (lower (m_body ?m)))"
    by (rule bexI [rotated]) (rule disjI1 [OF i])
  have l: "length (m_body ?m) \<le> 2000" by (simp add: example_message_def)
  have r: "is_sparse_related ?m" unfolding is_sparse_related_short [OF l] by code_simp
  have a: "extract_author (''mallory'' @ '' <'' @ ''mallory'' @ ''@example.org>'')
           = (''mallory'', ''mallory'' @ ''@example.org'')" by code_simp
  have s: "strip ''URGENT: inheritance fund transfer'' \<noteq> []" by code_simp
  have p: "parse_mbox_file example_strptime ?f = Some ?m"
    by (rule example_file_parses [OF a s]) simp
  note t = spam_record_dropped [where digest = example_digest and tb = example_builder
      and strptime = example_strptime and f = ?f and before = ?before
      and after = ?after and files = ?files, OF h]
  note t1 = t [THEN conjunct1]
  note t2 = t [THEN conjunct2, THEN conjunct1]
  note t3 = t [THEN conjunct2, THEN conjunct2, THEN conjunct1, THEN mp, OF p]
  note t4 = t [THEN conjunct2, THEN conjunct2, THEN conjunct2, folded list_all_iff]
  show ?thesis by (intro conjI h r t1 t2 p t3 t4)
qed

lemma same_key_same_thread:
  assumes p1: "\<exists>f\<in>set files. parse_mbox_file strptime f = Some m1"
    and p2: "\<exists>f\<in>set files. parse_mbox_file strptime f = Some m2"
    and k1: "\<not> is_spam m1" "is_sparse_related m1"
    and k2: "\<not> is_spam m2" "is_sparse_related m2"
    and eq: "thread_key digest (normalize_subject (m_subject m1))
             = thread_key digest (normalize_subject (m_subject m2))"
  shows "\<exists>t. map_of (threads (load_and_process_emails strptime digest files))
                (thread_key digest (normalize_subject (m_subject m1))) = Some t
             \<and> m1 \<in> set (t_messages t) \<and> m2 \<in> set (t_messages t)"
proof -
  let ?msgs = "List.map_filter (parse_mbox_file strptime) files"
  from p1 have "m1 \<in> set ?msgs" by (auto intro: in_map_filter)
  from retained_in_thread [OF this k1]
  obtain t1 where 1: "map_of (threads (load_and_process_emails strptime digest files))
                (thread_key digest (normalize_subject (m_subject m1))) = Some t1"
    and m1: "m1 \<in> set (t_messages t1)"
    unfolding load_and_process_emails_def by blast
  from p2 have "m2 \<in> set ?msgs" by (auto intro: in_map_filter)
  from retained_in_thread [OF this k2]
  obtain t2 where 2: "map_of (threads (load_and_process_emails strptime digest files))
                (thread_key digest (normalize_subject (m_subject m2))) = Some t2"
    and m2: "m2 \<in> set (t_messages t2)"
    unfolding load_and_process_emails_def by blast
  from 1 2 eq have "t1 = t2" by simp
  with 1 m1 m2 show ?thesis by auto
qed

text \<open>
  Claim C3: the key under which a record is filed is \<open>thread_key\<close> of its normalized
  subject and of nothing else in the record; the keys of the dictionary are distinct; and
  two records of one run that pass the filters and have equal normalized subjects are
  messages of one and the same thread.
\<close>

theorem thread_key_from_normalized_subject:
  "(\<forall>(k, t)\<in>set (threads (load_and_process_emails strptime digest files)).
      \<forall>m\<in>set (t_messages t). k = thread_key digest (normalize_subject (m_subject m)))
   \<and> distinct (map fst (threads (load_and_process_emails strptime digest files)))
   \<and> ((\<exists>f\<in>set files. parse_mbox_file strptime f = Some m1)
      \<and> (\<exists>f\<in>set files. parse_mbox_file strptime f = Some m2)
      \<and> \<not> is_spam m1 \<and> is_sparse_related m1 \<and> \<not> is_spam m2 \<and> is_sparse_related m2
      \<and> normalize_subject (m_subject m1) = normalize_subject (m_subject m2)
      \<longrightarrow> (\<exists>t. map_of (threads (load_and_process_emails strptime digest files))
                   (thread_key digest (normalize_subject (m_subject m1))) = Some t
                \<and> m1 \<in> set (t_messages t) \<and> m2 \<in> set (t_messages t)))"
proof (intro conjI impI)
  show "\<forall>(k, t)\<in>set (threads (load_and_process_emails strptime digest files)).
      \<forall>m\<in>set (t_messages t). k = thread_key digest (normalize_subject (m_subject m))"
    using keyed_load [of digest strptime files] unfolding keyed_def by blast
  show "distinct (map fst (threads (load_and_process_emails strptime digest files)))"
    using keyed_load [of digest strptime files] unfolding keyed_def by blast
  assume a: "(\<exists>f\<in>set files. parse_mbox_file strptime f = Some m1)
      \<and> (\<exists>f\<in>set files. parse_mbox_file strptime f = Some m2)
      \<and> \<not> is_spam m1 \<and> is_sparse_related m1 \<and> \<not> is_spam m2 \<and> is_sparse_related m2
      \<and> normalize_subject (m_subject m1) = normalize_subject (m_subject m2)"
  then have "thread_key digest (normalize_subject (m_subject m1))
             = thread_key digest (normalize_subject (m_subject m2))" by simp
  with a show "\<exists>t. map_of (threads (load_and_process_emails strptime digest files))
                   (thread_key digest (normalize_subject (m_subject m1))) = Some t
                \<and> m1 \<in> set (t_messages t) \<and> m2 \<in> set (t_messages t)"
    by (intro same_key_same_thread) simp_all
qed


text \<open>
  Claim C3 on the example of the specification: a patch and the reply to it, with a
  message of another thread between them.
\<close>

theorem thread_key_from_normalized_subject_witness:
  "(\<exists>f\<in>set [example_file ''heidi'' ''[PATCH] add __iomem check'' ''first version'',
              example_file ''dave'' ''sparse: endian warning'' ''any idea?'',
              example_file ''ivan'' ''Re: [PATCH] add __iomem check'' ''looks good''].
      parse_mbox_file example_strptime f
      = Some (example_message ''heidi'' ''[PATCH] add __iomem check'' ''first version''))
   \<and> (\<exists>f\<in>set [example_file ''heidi'' ''[PATCH] add __iomem check'' ''first version'',
              example_file ''dave'' ''sparse: endian warning'' ''any idea?'',
              example_file ''ivan'' ''Re: [PATCH] add __iomem check'' ''looks good''].
      parse_mbox_file example_strptime f
      = Some (example_message ''ivan'' ''Re: [PATCH] add __iomem check'' ''looks good''))
   \<and> \<not> is_spam (example_message ''heidi'' ''[PATCH] add __iomem check'' ''first version'')
   \<and> is_sparse_related (example_message ''heidi'' ''[PATCH] add __iomem check'' ''first version'')
   \<and> \<not> is_spam (example_message ''ivan'' ''Re: [PATCH] add __iomem check'' ''looks good'')
   \<and> is_sparse_related (example_message ''ivan'' ''Re: [PATCH] add __iomem check'' ''looks good'')
   \<and> normalize_subject (m_subject (example_message ''heidi'' ''[PATCH] add __iomem check''
                                      ''first version''))
     = normalize_subject (m_subject (example_message ''ivan'' ''Re: [PATCH] add __iomem check''
                                      ''looks good''))
   \<and> (\<exists>t. map_of (threads (load_and_process_emails example_strptime example_digest
               [example_file ''heidi'' ''[PATCH] add __iomem check'' ''first version'',
                example_file ''dave'' ''sparse: endian warning'' ''any idea?'',
                example_file ''ivan'' ''Re: [PATCH] add __iomem check'' ''looks good'']))
             (thread_key example_digest
                (normalize_subject (m_subject (example_message ''heidi''
                   ''[PATCH] add __iomem check'' ''first version'')))) = Some t
          \<and> example_message ''heidi'' ''[PATCH] add __iomem check'' ''first version''
             \<in> set (t_messages t)
          \<and> example_message ''ivan'' ''Re: [PATCH] add __iomem check'' ''looks good''
             \<in> set (t_messages t))"
proof -
  let ?f1 = "example_file ''heidi'' ''[PATCH] add __iomem check'' ''first version''"
  let ?f2 = "example_file ''ivan'' ''Re: [PATCH] add __iomem check'' ''looks good''"
  let ?m1 = "example_message ''heidi'' ''[PATCH] add __iomem check'' ''first version''"
  let ?m2 = "example_message ''ivan'' ''Re: [PATCH] add __iomem check'' ''looks good''"
  let ?files = "[?f1, example_file ''dave'' ''sparse: endian warning'' ''any idea?'', ?f2]"
  have a1: "extract_author (''heidi'' @ '' <'' @ ''heidi'' @ ''@example.org>'')
           = (''heidi'', ''heidi'' @ ''@example.org'')" by code_simp
  have a2: "extract_author (''ivan'' @ '' <'' @ ''ivan'' @ ''@example.org>'')
           = (''ivan'', ''ivan'' @ ''@example.org'')" by code_simp
  have s1: "strip ''[PATCH] add __iomem check'' \<noteq> []" by code_simp
  have s2: "strip ''Re: [PATCH] add __iomem check'' \<noteq> []" by code_simp
  have p1: "parse_mbox_file example_strptime ?f1 = Some ?m1"
    by (rule example_file_parses [OF a1 s1]) simp
  have p2: "parse_mbox_file example_strptime ?f2 = Some ?m2"
    by (rule example_file_parses [OF a2 s2]) simp
  have h1: "\<exists>f\<in>set ?files. parse_mbox_file example_strptime f = Some ?m1"
    by (rule bexI [of _ ?f1]) (simp_all add: p1)
  have h2: "\<exists>f\<in>set ?files. parse_mbox_file example_strptime f = Some ?m2"
    by (rule bexI [of _ ?f2]) (simp_all add: p2)
  have l1: "length (m_body ?m1) \<le> 1000" and l1': "length (m_body ?m1) \<le> 2000"
    and l2: "length (m_body ?m2) \<le> 1000" and l2': "length (m_body ?m2) \<le> 2000"
    by (simp_all add: example_message_def)
  have h3: "\<not> is_spam ?m1" unfolding is_spam_short [OF l1] by code_simp
  have h4: "is_sparse_related ?m1" unfolding is_sparse_related_short [OF l1'] by code_simp
  have h5: "\<not> is_spam ?m2" unfolding is_spam_short [OF l2] by code_simp
  have h6: "is_sparse_related ?m2" unfolding is_sparse_related_short [OF l2'] by code_simp
  have h7: "normalize_subject (m_subject ?m1) = normalize_subject (m_subject ?m2)"
    by code_simp
  have h: "(\<exists>f\<in>set ?files. parse_mbox_file example_strptime f = Some ?m1)
      \<and> (\<exists>f\<in>set ?files. parse_mbox_file example_strptime f = Some ?m2)
      \<and> \<not> is_spam ?m1 \<and> is_sparse_related ?m1 \<and> \<not> is_spam ?m2 \<and> is_sparse_related ?m2
      \<and> normalize_subject (m_subject ?m1) = normalize_subject (m_subject ?m2)"
    by (intro conjI h1 h2 h3 h4 h5 h6 h7)
  note c = thread_key_from_normalized_subject [where strptime = example_strptime
      and digest = example_digest and files = ?files and ?m1.0 = ?m1 and ?m2.0 = ?m2,
      THEN conjunct2, THEN conjunct2, THEN mp, OF h]
  show ?thesis by (intro conjI h1 h2 h3 h4 h5 h6 h7 c)
qed

text \<open>
  Claim C9: the key is taken from the lower-cased normalized subject, so two records of
  one run that pass the filters and whose normalized subjects are equal up to the case of
  their letters have the same key and are messages of one and the same thread, although
  normalization keeps the case.
\<close>

theorem thread_key_ignores_case:
  assumes "\<exists>f\<in>set files. parse_mbox_file strptime f = Some m1"
    and "\<exists>f\<in>set files. parse_mbox_file strptime f = Some m2"
    and "\<not> is_spam m1" and "is_sparse_related m1"
    and "\<not> is_spam m2" and "is_sparse_related m2"
    and "lower (normalize_subject (m_subject m1)) = lower (normalize_subject (m_subject m2))"
  shows "thread_key digest (normalize_subject (m_subject m1))
         = thread_key digest (normalize_subject (m_subject m2))
     \<and> (\<exists>t. map_of (threads (load_and_process_emails strptime digest files))
               (thread_key digest (normalize_subject (m_subject m1))) = Some t
            \<and> m1 \<in> set (t_messages t) \<and> m2 \<in> set (t_messages t))"
proof
  show eq: "thread_key digest (normalize_subject (m_subject m1))
         = thread_key digest (normalize_subject (m_subject m2))"
    using assms(7) by (simp add: thread_key_def)
  show "\<exists>t. map_of (threads (load_and_process_emails strptime digest files))
               (thread_key digest (normalize_subject (m_subject m1))) = Some t
            \<and> m1 \<in> set (t_messages t) \<and> m2 \<in> set (t_messages t)"
    using assms(1-6) eq by (rule same_key_same_thread)
qed


text \<open>
  Claim C9 on two subjects that normalize to \<open>Fix Cast Warning\<close> and \<open>fix cast warning\<close>.
\<close>

theorem thread_key_ignores_case_witness:
  "(\<exists>f\<in>set [example_file ''heidi'' ''[PATCH] Fix Cast Warning'' ''first version'',
              example_file ''ivan'' ''RE: fix cast warning'' ''looks good''].
      parse_mbox_file example_strptime f
      = Some (example_message ''heidi'' ''[PATCH] Fix Cast Warning'' ''first version''))
   \<and> (\<exists>f\<in>set [example_file ''heidi'' ''[PATCH] Fix Cast Warning'' ''first version'',
              example_file ''ivan'' ''RE: fix cast warning'' ''looks good''].
      parse_mbox_file example_strptime f
      = Some (example_message ''ivan'' ''RE: fix cast warning'' ''looks good''))
   \<and> \<not> is_spam (example_message ''heidi'' ''[PATCH] Fix Cast Warning'' ''first version'')
   \<and> is_sparse_related (example_message ''heidi'' ''[PATCH] Fix Cast Warning'' ''first version'')
   \<and> \<not> is_spam (example_message ''ivan'' ''RE: fix cast warning'' ''looks good'')
   \<and> is_sparse_related (example_message ''ivan'' ''RE: fix cast warning'' ''looks good'')
   \<and> normalize_subject (m_subject (example_message ''heidi'' ''[PATCH] Fix Cast Warning''
                                      ''first version''))
     \<noteq> normalize_subject (m_subject (example_message ''ivan'' ''RE: fix cast warning''
                                      ''looks good''))
   \<and> lower (normalize_subject (m_subject (example_message ''heidi''
               ''[PATCH] Fix Cast Warning'' ''first version'')))
     = lower (normalize_subject (m_subject (example_message ''ivan''
               ''RE: fix cast warning'' ''looks good'')))
   \<and> thread_key example_digest (normalize_subject (m_subject (example_message ''heidi''
               ''[PATCH] Fix Cast Warning'' ''first version'')))
     = thread_key example_digest (normalize_subject (m_subject (example_message ''ivan''
               ''RE: fix cast warning'' ''looks good'')))
   \<and> (\<exists>t. map_of (threads (load_and_process_emails example_strptime example_digest
               [example_file ''heidi'' ''[PATCH] Fix Cast Warning'' ''first version'',
                example_file ''ivan'' ''RE: fix cast warning'' ''looks good'']))
             (thread_key example_digest (normalize_subject (m_subject (example_message
                ''heidi'' ''[PATCH] Fix Cast Warning'' ''first version'')))) = Some t
          \<and> example_message ''heidi'' ''[PATCH] Fix Cast Warning'' ''first version''
             \<in> set (t_messages t)
          \<and> example_message ''ivan'' ''RE: fix cast warning'' ''looks good''
             \<in> set (t_messages t))"
proof -
  let ?f1 = "example_file ''heidi'' ''[PATCH] Fix Cast Warning'' ''first version''"
  let ?f2 = "example_file ''ivan'' ''RE: fix cast warning'' ''looks good''"
  let ?m1 = "example_message ''heidi'' ''[PATCH] Fix Cast Warning'' ''first version''"
  let ?m2 = "example_message ''ivan'' ''RE: fix cast warning'' ''looks good''"
  let ?files = "[?f1, ?f2]"
  have a1: "extract_author (''heidi'' @ '' <'' @ ''heidi'' @ ''@example.org>'')
           = (''heidi'', ''heidi'' @ ''@example.org'')" by code_simp
  have a2: "extract_author (''ivan'' @ '' <'' @ ''ivan'' @ ''@example.org>'')
           = (''ivan'', ''ivan'' @ ''@example.org'')" by code_simp
  have s1: "strip ''[PATCH] Fix Cast Warning'' \<noteq> []" by code_simp
  have s2: "strip ''RE: fix cast warning'' \<noteq> []" by code_simp
  have p1: "parse_mbox_file example_strptime ?f1 = Some ?m1"
    by (rule example_file_parses [OF a1 s1]) simp
  have p2: "parse_mbox_file example_strptime ?f2 = Some ?m2"
    by (rule example_file_parses [OF a2 s2]) simp
  have h1: "\<exists>f\<in>set ?files. parse_mbox_file example_strptime f = Some ?m1"
    by (rule bexI [of _ ?f1]) (simp_all add: p1)
  have h2: "\<exists>f\<in>set ?files. parse_mbox_file example_strptime f = Some ?m2"
    by (rule bexI [of _ ?f2]) (simp_all add: p2)
  have l1: "length (m_body ?m1) \<le> 1000" and l1': "length (m_body ?m1) \<le> 2000"
    and l2: "length (m_body ?m2) \<le> 1000" and l2': "length (m_body ?m2) \<le> 2000"
    by (simp_all add: example_message_def)
  have h3: "\<not> is_spam ?m1" unfolding is_spam_short [OF l1] by code_simp
  have h4: "is_sparse_related ?m1" unfolding is_sparse_related_short [OF l1'] by code_simp
  have h5: "\<not> is_spam ?m2" unfolding is_spam_short [OF l2] by code_simp
  have h6: "is_sparse_related ?m2" unfolding is_sparse_related_short [OF l2'] by code_simp
  have n: "normalize_subject (m_subject ?m1) \<noteq> normalize_subject (m_subject ?m2)"
    by code_simp
  have h7: "lower (normalize_subject (m_subject ?m1)) = lower (normalize_subject (m_subject ?m2))"
    by code_simp
  note c = thread_key_ignores_case [OF h1 h2 h3 h4 h5 h6 h7, of example_digest]
  show ?thesis by (intro conjI h1 h2 h3 h4 h5 h6 n h7 c [THEN conjunct1] c [THEN conjunct2])
qed

subsection \<open>Timestamps\<close>

lemma try_formats_first:
  "i < length fmts \<Longrightarrow> strptime s (fmts ! i) = Some d \<Longrightarrow>
   \<forall>j<i. strptime s (fmts ! j) = None \<Longrightarrow> try_formats strptime s fmts = Some d"
proof (induction fmts arbitrary: i)
  case Nil
  then show ?case by simp
next
  case (Cons fmt fmts)
  show ?case
  proof (cases i)
    case 0
    with Cons.prems show ?thesis by simp
  next
    case (Suc k)
    with Cons.prems have "strptime s fmt = None" by auto
    moreover from Suc Cons.prems have "try_formats strptime s fmts = Some d"
      by (intro Cons.IH [of k]) auto
    ultimately show ?thesis by simp
  qed
qed

lemma try_formats_none:
  "\<forall>fmt\<in>set fmts. strptime s fmt = None \<Longrightarrow> try_formats strptime s fmts = None"
  by (induction fmts) simp_all

lemma parse_date_none:
  "\<forall>fmt\<in>set date_formats. strptime (strip (sub_trailing_comment date_str)) fmt = None \<Longrightarrow>
   parse_date strptime date_str = None"
  by (simp add: parse_date_def try_formats_none)

lemma strip_nonempty: "strip s \<noteq> [] \<Longrightarrow> s \<noteq> []"
  by (auto simp: strip_def)

lemma parse_mbox_file_undated:
  assumes "\<forall>fmt\<in>set date_formats. strptime (strip (sub_trailing_comment (r_date raw))) fmt = None"
    and "strip (r_subject raw) \<noteq> []"
  shows "\<exists>m. parse_mbox_file strptime (Mbox raw) = Some m \<and> m_date m = None
            \<and> m_year m = r_year_dir raw \<and> m_month m = r_month_dir raw"
  using assms strip_nonempty [OF assms(2)]
  by (simp add: parse_mbox_file_def parse_date_none split: prod.split)

lemma min_loop_undated:
  "\<forall>m\<in>set ms. m_date m = None \<Longrightarrow> m_date best = None \<Longrightarrow>
   min_loop (\<lambda>m. case m_date m of Some d \<Rightarrow> d | None \<Rightarrow> datetime_max) best ms = Inr best"
  by (induction ms arbitrary: best) (simp_all add: dt_less_def datetime_max_def)

lemma thread_decision_undated:
  assumes "t_messages t \<noteq> []" and "\<forall>m\<in>set (t_messages t). m_date m = None"
  shows "\<exists>d. thread_decision t = Inr d \<and> d_year d = None \<and> d_first_date d = None"
proof -
  from assms obtain m ms where ms: "t_messages t = m # ms" by (cases "t_messages t") auto
  with assms(2) have "m_date m = None" and "\<forall>x\<in>set ms. m_date x = None" by simp_all
  then have 1: "py_min (\<lambda>m. case m_date m of Some d \<Rightarrow> d | None \<Rightarrow> datetime_max) (t_messages t) = Inr m"
    by (simp add: py_min_def ms min_loop_undated)
  have "List.map_filter m_date (t_messages t) = []"
    using assms(2) by (induction "t_messages t" arbitrary: t) (auto simp: List.map_filter_def)
  then have 2: "get_first_date t = Inr None" by (simp add: get_first_date_def)
  show ?thesis by (simp add: thread_decision_def 1 2)
qed

lemma dt_less_cases:
  "dt_less a b =
     (if (dt_utcoffset a = None) = (dt_utcoffset b = None)
      then Inr (dt_instant a < dt_instant b) else Inl TypeError)"
  by (simp add: dt_less_def dt_instant_def split: option.splits)

lemma min_loop_split:
  "min_loop (\<lambda>d. d) best xs = Inr r \<Longrightarrow>
   \<forall>x\<in>set pre. dt_less best x = Inr True \<Longrightarrow>
   \<forall>x\<in>set post. dt_less x best = Inr False \<Longrightarrow>
   \<exists>pre' post'. pre @ best # post @ xs = pre' @ r # post'
      \<and> (\<forall>x\<in>set pre'. dt_less r x = Inr True)
      \<and> (\<forall>x\<in>set post'. dt_less x r = Inr False)"
proof (induction xs arbitrary: best pre post)
  case Nil
  then have "r = best" by simp
  with Nil show ?case by auto
next
  case (Cons x xs)
  from Cons.prems(1) obtain b where b: "dt_less x best = Inr b"
    and m: "min_loop (\<lambda>d. d) (if b then x else best) xs = Inr r"
    by (cases "dt_less x best") simp_all
  show ?case
  proof (cases b)
    case True
    have "\<forall>y\<in>set (pre @ best # post). dt_less x y = Inr True"
    proof
      fix y assume "y \<in> set (pre @ best # post)"
      then consider "y \<in> set pre" | "y = best" | "y \<in> set post" by auto
      then show "dt_less x y = Inr True"
      proof cases
        case 1
        with Cons.prems(2) have "dt_less best y = Inr True" by simp
        with b True show ?thesis by (auto simp: dt_less_cases split: if_splits)
      next
        case 2
        with b True show ?thesis by simp
      next
        case 3
        with Cons.prems(3) have "dt_less y best = Inr False" by simp
        with b True show ?thesis by (auto simp: dt_less_cases split: if_splits)
      qed
    qed
    moreover have "\<forall>y\<in>set []. dt_less y x = Inr False" by simp
    moreover from m True have "min_loop (\<lambda>d. d) x xs = Inr r" by simp
    ultimately have "\<exists>pre' post'. (pre @ best # post) @ x # [] @ xs = pre' @ r # post'
      \<and> (\<forall>x\<in>set pre'. dt_less r x = Inr True)
      \<and> (\<forall>x\<in>set post'. dt_less x r = Inr False)"
      by (intro Cons.IH)
    then show ?thesis by simp
  next
    case False
    with m have "min_loop (\<lambda>d. d) best xs = Inr r" by simp
    moreover from b False Cons.prems(3)
    have "\<forall>y\<in>set (post @ [x]). dt_less y best = Inr False" by simp
    ultimately have "\<exists>pre' post'. pre @ best # (post @ [x]) @ xs = pre' @ r # post'
      \<and> (\<forall>x\<in>set pre'. dt_less r x = Inr True)
      \<and> (\<forall>x\<in>set post'. dt_less x r = Inr False)"
      using Cons.prems(2) by (intro Cons.IH)
    then show ?thesis by simp
  qed
qed

lemma first_earliest_split:
  assumes "\<forall>x\<in>set pre. dt_less d x = Inr True" and "\<forall>x\<in>set post. dt_less x d = Inr False"
  shows "first_earliest (pre @ d # post) d"
proof -
  have 1: "length pre < length (pre @ d # post)" by simp
  have 2: "(pre @ d # post) ! length pre = d" by simp
  have 3: "\<forall>j<length pre. dt_less d ((pre @ d # post) ! j) = Inr True"
    using assms(1) by (simp add: nth_append)
  have 4: "\<forall>j<length (pre @ d # post). dt_less ((pre @ d # post) ! j) d = Inr False"
  proof (intro allI impI)
    fix j assume "j < length (pre @ d # post)"
    then have "(pre @ d # post) ! j \<in> set (pre @ d # post)" by (rule nth_mem)
    then consider "(pre @ d # post) ! j \<in> set pre" | "(pre @ d # post) ! j = d"
      | "(pre @ d # post) ! j \<in> set post" by auto
    then show "dt_less ((pre @ d # post) ! j) d = Inr False"
    proof cases
      case 1
      with assms(1) have "dt_less d ((pre @ d # post) ! j) = Inr True" by simp
      then show ?thesis by (auto simp: dt_less_cases split: if_splits)
    next
      case 2
      then show ?thesis by (simp add: dt_less_cases)
    next
      case 3
      with assms(2) show ?thesis by simp
    qed
  qed
  show ?thesis unfolding first_earliest_def using 1 2 3 4 by blast
qed

lemma py_min_first_earliest:
  assumes "py_min id dates = Inr d"
  shows "first_earliest dates d"
proof -
  from assms obtain x xs where xs: "dates = x # xs" and m: "min_loop (\<lambda>d. d) x xs = Inr d"
    by (cases dates) (simp_all add: py_min_def id_def)
  have "\<exists>pre' post'. [] @ x # [] @ xs = pre' @ d # post'
      \<and> (\<forall>y\<in>set pre'. dt_less d y = Inr True)
      \<and> (\<forall>y\<in>set post'. dt_less y d = Inr False)"
    by (rule min_loop_split [OF m]) simp_all
  then obtain pre' post' where "dates = pre' @ d # post'"
    and "\<forall>y\<in>set pre'. dt_less d y = Inr True" and "\<forall>y\<in>set post'. dt_less y d = Inr False"
    using xs by auto
  then show ?thesis by (simp add: first_earliest_split)
qed

lemma get_first_date_earliest:
  assumes "get_first_date t = Inr first_date"
  shows "(parsed_dates t = [] \<longrightarrow> first_date = None)
         \<and> (parsed_dates t \<noteq> [] \<longrightarrow>
              (\<exists>d. first_earliest (parsed_dates t) d \<and> first_date = Some d))"
proof (cases "parsed_dates t = []")
  case True
  with assms show ?thesis by (simp add: get_first_date_def parsed_dates_def)
next
  case False
  with assms have "map_sum id Some (py_min id (parsed_dates t)) = Inr first_date"
    by (simp add: get_first_date_def parsed_dates_def)
  then obtain d where "py_min id (parsed_dates t) = Inr d" and "first_date = Some d"
    by (cases "py_min id (parsed_dates t)") auto
  with False show ?thesis by (auto dest: py_min_first_earliest)
qed

lemma thread_decision_dates:
  assumes "thread_decision t = Inr dec"
  shows "get_first_date t = Inr (d_first_date dec)
         \<and> d_year dec = map_option dt_year (d_first_date dec)"
  using assms by (auto simp: thread_decision_def Let_def split: sum.splits)

lemma to_dict_dates:
  assumes "to_dict isoformat t = Inr td"
  shows "\<exists>first_date. get_first_date t = Inr first_date
           \<and> td_first_date td = map_option isoformat first_date
           \<and> td_year td = map_option dt_year first_date
           \<and> set (td_messages td) = set (t_messages t)"
  using assms
  by (auto simp: to_dict_def sorted_by_datetime_def split: sum.splits if_splits)

lemma thread_decision_year:
  assumes "thread_decision t = Inr dec"
  shows "(parsed_dates t = [] \<longrightarrow> d_first_date dec = None \<and> d_year dec = None)
         \<and> (parsed_dates t \<noteq> [] \<longrightarrow>
              (\<exists>d. first_earliest (parsed_dates t) d \<and> d_first_date dec = Some d
                   \<and> d_year dec = Some (dt_year d)))"
  using thread_decision_dates [OF assms]
    get_first_date_earliest [of t "d_first_date dec"]
  by auto

lemma to_dict_year:
  assumes "to_dict isoformat t = Inr td"
  shows "(parsed_dates t = [] \<longrightarrow> td_first_date td = None \<and> td_year td = None)
         \<and> (parsed_dates t \<noteq> [] \<longrightarrow>
              (\<exists>d. first_earliest (parsed_dates t) d \<and> td_first_date td = Some (isoformat d)
                   \<and> td_year td = Some (dt_year d)))"
proof -
  from to_dict_dates [OF assms] obtain first_date where g: "get_first_date t = Inr first_date"
    and f: "td_first_date td = map_option isoformat first_date"
    and y: "td_year td = map_option dt_year first_date"
    by blast
  from get_first_date_earliest [OF g] f y show ?thesis by auto
qed

lemma map_filter_undated:
  "\<forall>m\<in>set ms. m_date m = None \<Longrightarrow> List.map_filter m_date ms = []"
  by (induction ms) (auto simp: List.map_filter_def)

lemma to_dict_undated:
  assumes "\<forall>m\<in>set (t_messages t). m_date m = None"
  shows "\<exists>td. to_dict isoformat t = Inr td \<and> td_year td = None \<and> td_first_date td = None
           \<and> thread_year (json_of_thread str_datetime td) = ''unknown''"
proof -
  have d: "List.map_filter m_date (t_messages t) = []"
    using assms by (rule map_filter_undated)
  have 1: "get_first_date t = Inr None" by (simp add: get_first_date_def d)
  have 2: "get_last_date t = Inr None" by (simp add: get_last_date_def d)
  let ?key = "\<lambda>m. case m_date m of Some d \<Rightarrow> d | None \<Rightarrow> datetime_min"
  have "\<not> list_ex (\<lambda>x. dt_utcoffset (?key x) \<noteq> None) (t_messages t)"
    using assms by (simp add: list_ex_iff datetime_min_def)
  then have 3: "sorted_by_datetime ?key (t_messages t)
      = Inr (sort_key (\<lambda>x. dt_instant (?key x)) (t_messages t))"
    by (simp add: sorted_by_datetime_def)
  let ?ms = "sort_key (\<lambda>x. dt_instant (?key x)) (t_messages t)"
  let ?td = "\<lparr>td_subject = t_subject t, td_normalized_subject = t_normalized_subject t,
      td_message_count = length (t_messages t), td_participants = t_participants t,
      td_categories = t_categories t, td_first_date = None, td_last_date = None,
      td_year = None, td_messages = ?ms\<rparr>"
  have 4: "to_dict isoformat t = Inr ?td" by (simp add: to_dict_def 1 2 3)
  have u: "\<forall>m\<in>set ?ms. m_date m = None" using assms by simp
  have 5: "thread_year (json_of_thread str_datetime ?td) = ''unknown''"
  proof (cases ?ms)
    case Nil
    then show ?thesis by (simp add: thread_year_def json_of_thread_def)
  next
    case (Cons m ms)
    with u have "m_date m = None" by (metis list.set_intros(1))
    with Cons show ?thesis
      by (simp add: thread_year_def json_of_thread_def json_of_message_def
          message_timestamp_def)
  qed
  from 4 5 show ?thesis by simp
qed

lemma min_loop_naive:
  "dt_utcoffset (key best) = None \<Longrightarrow> \<forall>x\<in>set xs. dt_utcoffset (key x) = None \<Longrightarrow>
   \<exists>r. min_loop key best xs = Inr r"
  by (induction xs arbitrary: best) (simp_all add: dt_less_cases)

lemma max_loop_naive:
  "dt_utcoffset (key best) = None \<Longrightarrow> \<forall>x\<in>set xs. dt_utcoffset (key x) = None \<Longrightarrow>
   \<exists>r. max_loop key best xs = Inr r"
  by (induction xs arbitrary: best) (simp_all add: dt_less_cases)

lemma py_min_naive:
  "xs \<noteq> [] \<Longrightarrow> \<forall>x\<in>set xs. dt_utcoffset (key x) = None \<Longrightarrow> \<exists>r. py_min key xs = Inr r"
  by (cases xs) (simp_all add: py_min_def min_loop_naive)

lemma py_max_naive:
  "xs \<noteq> [] \<Longrightarrow> \<forall>x\<in>set xs. dt_utcoffset (key x) = None \<Longrightarrow> \<exists>r. py_max key xs = Inr r"
  by (cases xs) (simp_all add: py_max_def max_loop_naive)

lemma set_parsed_dates:
  "set (parsed_dates t) = {d. \<exists>m\<in>set (t_messages t). m_date m = Some d}"
  by (force simp: parsed_dates_def List.map_filter_def image_iff)

lemma naive_keys:
  assumes "\<forall>d\<in>set (parsed_dates t). dt_utcoffset d = None"
    and "dt_utcoffset dflt = None"
  shows "\<forall>m\<in>set (t_messages t).
           dt_utcoffset (case m_date m of Some d \<Rightarrow> d | None \<Rightarrow> dflt) = None"
  using assms by (auto simp: set_parsed_dates split: option.splits)

lemma get_first_date_naive:
  assumes "\<forall>d\<in>set (parsed_dates t). dt_utcoffset d = None"
  shows "\<exists>fd. get_first_date t = Inr fd"
proof (cases "parsed_dates t = []")
  case True
  then show ?thesis by (simp add: get_first_date_def parsed_dates_def)
next
  case False
  from py_min_naive [of "parsed_dates t" id, OF False] assms
  obtain r where "py_min id (parsed_dates t) = Inr r" by auto
  with False show ?thesis by (simp add: get_first_date_def parsed_dates_def)
qed

lemma get_last_date_naive:
  assumes "\<forall>d\<in>set (parsed_dates t). dt_utcoffset d = None"
  shows "\<exists>fd. get_last_date t = Inr fd"
proof (cases "parsed_dates t = []")
  case True
  then show ?thesis by (simp add: get_last_date_def parsed_dates_def)
next
  case False
  from py_max_naive [of "parsed_dates t" id, OF False] assms
  obtain r where "py_max id (parsed_dates t) = Inr r" by auto
  with False show ?thesis by (simp add: get_last_date_def parsed_dates_def)
qed

lemma thread_decision_naive:
  assumes "t_messages t \<noteq> []" and "\<forall>d\<in>set (parsed_dates t). dt_utcoffset d = None"
  shows "\<exists>dec. thread_decision t = Inr dec"
proof -
  have "\<forall>m\<in>set (t_messages t).
           dt_utcoffset (case m_date m of Some d \<Rightarrow> d | None \<Rightarrow> datetime_max) = None"
    using assms(2) by (rule naive_keys) (simp add: datetime_max_def)
  with assms(1) obtain r
    where 1: "py_min (\<lambda>m. case m_date m of Some d \<Rightarrow> d | None \<Rightarrow> datetime_max)
                (t_messages t) = Inr r"
    using py_min_naive [of "t_messages t"
        "\<lambda>m. case m_date m of Some d \<Rightarrow> d | None \<Rightarrow> datetime_max"] by auto
  from get_first_date_naive [OF assms(2)] obtain fd where 2: "get_first_date t = Inr fd" ..
  show ?thesis by (simp add: thread_decision_def 1 2)
qed

lemma to_dict_naive:
  assumes "\<forall>d\<in>set (parsed_dates t). dt_utcoffset d = None"
  shows "\<exists>td. to_dict isoformat t = Inr td"
proof -
  from get_first_date_naive [OF assms] obtain fd where 1: "get_first_date t = Inr fd" ..
  from get_last_date_naive [OF assms] obtain ld where 2: "get_last_date t = Inr ld" ..
  have "\<forall>m\<in>set (t_messages t).
           dt_utcoffset (case m_date m of Some d \<Rightarrow> d | None \<Rightarrow> datetime_min) = None"
    using assms by (rule naive_keys) (simp add: datetime_min_def)
  then have "\<not> list_ex (\<lambda>x. dt_utcoffset (case m_date x of Some d \<Rightarrow> d | None \<Rightarrow> datetime_min)
                  \<noteq> None) (t_messages t)"
    by (simp add: list_ex_iff)
  then have 3: "\<exists>ms. sorted_by_datetime
      (\<lambda>m. case m_date m of Some d \<Rightarrow> d | None \<Rightarrow> datetime_min) (t_messages t) = Inr ms"
    by (simp add: sorted_by_datetime_def)
  then obtain ms where "sorted_by_datetime
      (\<lambda>m. case m_date m of Some d \<Rightarrow> d | None \<Rightarrow> datetime_min) (t_messages t) = Inr ms" ..
  then show ?thesis by (simp add: to_dict_def 1 2)
qed

lemma map_filter_map: "List.map_filter f (map g xs) = List.map_filter (f \<circ> g) xs"
  by (induction xs) (simp_all add: List.map_filter_def)

lemma parsed_dates_relocate: "parsed_dates (relocate y mo t) = parsed_dates t"
  by (simp add: parsed_dates_def relocate_def map_filter_map comp_def)

lemma get_first_date_relocate: "get_first_date (relocate y mo t) = get_first_date t"
  using parsed_dates_relocate [of y mo t] by (simp add: get_first_date_def parsed_dates_def)

lemma get_last_date_relocate: "get_last_date (relocate y mo t) = get_last_date t"
  using parsed_dates_relocate [of y mo t] by (simp add: get_last_date_def parsed_dates_def)

lemma min_loop_map:
  "\<forall>x. key (g x) = key x \<Longrightarrow>
   min_loop key (g best) (map g xs) = map_sum id g (min_loop key best xs)"
  by (induction xs arbitrary: best) (auto split: sum.splits)

lemma py_min_map:
  "\<forall>x. key (g x) = key x \<Longrightarrow> py_min key (map g xs) = map_sum id g (py_min key xs)"
  by (cases xs) (simp_all add: py_min_def min_loop_map)

lemma foldl_decide_map:
  assumes "\<forall>x. m_body (g x) = m_body x"
  shows "foldl decide outcome (map g xs) = foldl decide outcome xs"
proof (induction xs arbitrary: outcome)
  case Nil
  show ?case by simp
next
  case (Cons x xs)
  have "decide outcome (g x) = decide outcome x"
    using assms by (simp add: decide_def)
  with Cons show ?case by simp
qed

lemma thread_decision_relocate: "thread_decision (relocate y mo t) = thread_decision t"
proof -
  let ?g = "\<lambda>m. m\<lparr>m_year := y m, m_month := mo m\<rparr>"
  let ?key = "\<lambda>m. case m_date m of Some d \<Rightarrow> d | None \<Rightarrow> datetime_max"
  have ms: "t_messages (relocate y mo t) = map ?g (t_messages t)" by (simp add: relocate_def)
  have 1: "py_min ?key (map ?g (t_messages t)) = map_sum id ?g (py_min ?key (t_messages t))"
    by (rule py_min_map) simp
  have 2: "thread_outcome (map ?g (t_messages t)) = thread_outcome (t_messages t)"
    unfolding thread_outcome_def by (rule foldl_decide_map) simp
  have 3: "map message_rationale (map ?g (t_messages t)) = map message_rationale (t_messages t)"
    by (simp add: message_rationale_def)
  have 4: "t_subject (relocate y mo t) = t_subject t"
    "t_normalized_subject (relocate y mo t) = t_normalized_subject t"
    "t_participants (relocate y mo t) = t_participants t"
    "t_categories (relocate y mo t) = t_categories t"
    by (simp_all add: relocate_def)
  show ?thesis
    unfolding thread_decision_def ms 1 2 3 4 get_first_date_relocate
    by (cases "py_min ?key (t_messages t)"; cases "get_first_date t") simp_all
qed

lemma insort_key_map:
  "insort_key k (g x) (map g ys) = map g (insort_key (\<lambda>x. k (g x)) x ys)"
  by (induction ys) simp_all

lemma sort_key_map: "sort_key k (map g xs) = map g (sort_key (\<lambda>x. k (g x)) xs)"
  by (induction xs) (simp_all add: insort_key_map)

lemma sorted_by_datetime_map:
  assumes "\<forall>x. key (g x) = key x"
  shows "sorted_by_datetime key (map g xs) = map_sum id (map g) (sorted_by_datetime key xs)"
  using assms by (simp add: sorted_by_datetime_def list_ex_iff sort_key_map)

lemma to_dict_relocate:
  "to_dict isoformat (relocate y mo t)
   = map_sum id (\<lambda>td. td\<lparr>td_messages := map (\<lambda>m. m\<lparr>m_year := y m, m_month := mo m\<rparr>)
                                              (td_messages td)\<rparr>)
       (to_dict isoformat t)"
proof -
  let ?g = "\<lambda>m. m\<lparr>m_year := y m, m_month := mo m\<rparr>"
  let ?key = "\<lambda>m. case m_date m of Some d \<Rightarrow> d | None \<Rightarrow> datetime_min"
  have ms: "t_messages (relocate y mo t) = map ?g (t_messages t)" by (simp add: relocate_def)
  have 1: "sorted_by_datetime ?key (map ?g (t_messages t))
        = map_sum id (map ?g) (sorted_by_datetime ?key (t_messages t))"
    by (rule sorted_by_datetime_map) simp
  have 4: "t_subject (relocate y mo t) = t_subject t"
    "t_normalized_subject (relocate y mo t) = t_normalized_subject t"
    "t_participants (relocate y mo t) = t_participants t"
    "t_categories (relocate y mo t) = t_categories t"
    by (simp_all add: relocate_def)
  show ?thesis
    unfolding to_dict_def ms 1 4 get_first_date_relocate get_last_date_relocate
    by (cases "sorted_by_datetime ?key (t_messages t)"; cases "get_first_date t";
        cases "get_last_date t") simp_all
qed

text \<open>
  Claim C7, as stated: when no format matches, the record is still produced and its
  callers fall back to the year and month taken from the directories. The record is
  produced, and it carries the two directory names, but no caller reads them: for the
  patch thread, a significant thread whose messages all lie in directory 2020/01 and
  have no parsed date, the decision has no year, the entry of the thread in the topics
  document has no year, and the year-partitioning stage files that entry under
  \<open>unknown\<close>.
\<close>

theorem undated_thread_year_counterexample:
  "parse_mbox_file example_strptime
       (example_file ''alice'' ''[PATCH] fix cast'' ''please review'')
     = Some (example_message ''alice'' ''[PATCH] fix cast'' ''please review'')
   \<and> m_date (example_message ''alice'' ''[PATCH] fix cast'' ''please review'') = None
   \<and> m_year (example_message ''alice'' ''[PATCH] fix cast'' ''please review'') = ''2020''
   \<and> m_month (example_message ''alice'' ''[PATCH] fix cast'' ''please review'') = ''01''
   \<and> list_all (\<lambda>m. m_date m = None \<and> m_year m = ''2020'' \<and> m_month m = ''01'')
        (t_messages patch_thread)
   \<and> significant_threads example_builder ! 1 = patch_thread
   \<and> (case thread_decision patch_thread of
         Inl e \<Rightarrow> False
       | Inr dec \<Rightarrow> d_message_count dec = 5 \<and> d_year dec = None \<and> d_year dec \<noteq> Some 2020)
   \<and> map_sum id (map (\<lambda>d. (d_normalized_subject d, d_year d)))
        (extract_key_decisions example_builder)
     = Inr [(''context tracking'', None), (''fix cast'', None)]
   \<and> map_sum id td_year (to_dict example_isoformat patch_thread) = Inr None
   \<and> map_sum id (json_of_thread example_str_datetime)
        (to_dict example_isoformat patch_thread)
     = Inr patch_thread_json
   \<and> thread_year patch_thread_json = ''unknown''"
proof -
  have a: "extract_author (''alice'' @ '' <'' @ ''alice'' @ ''@example.org>'')
           = (''alice'', ''alice'' @ ''@example.org'')" by code_simp
  have s: "strip ''[PATCH] fix cast'' \<noteq> []" by code_simp
  have p: "parse_mbox_file example_strptime
       (example_file ''alice'' ''[PATCH] fix cast'' ''please review'')
     = Some (example_message ''alice'' ''[PATCH] fix cast'' ''please review'')"
    by (rule example_file_parses [OF a s]) simp
  have f: "m_date (example_message ''alice'' ''[PATCH] fix cast'' ''please review'') = None"
    "m_year (example_message ''alice'' ''[PATCH] fix cast'' ''please review'') = ''2020''"
    "m_month (example_message ''alice'' ''[PATCH] fix cast'' ''please review'') = ''01''"
    by (simp_all add: example_message_def)
  have l: "list_all (\<lambda>m. m_date m = None \<and> m_year m = ''2020'' \<and> m_month m = ''01'')
        (t_messages patch_thread)"
    by code_simp
  have g: "significant_threads example_builder ! 1 = patch_thread" by code_simp
  have d: "case thread_decision patch_thread of
         Inl e \<Rightarrow> False
       | Inr dec \<Rightarrow> d_message_count dec = 5 \<and> d_year dec = None \<and> d_year dec \<noteq> Some 2020"
    by code_simp
  have e: "map_sum id (map (\<lambda>d. (d_normalized_subject d, d_year d)))
        (extract_key_decisions example_builder)
     = Inr [(''context tracking'', None), (''fix cast'', None)]"
    by code_simp
  have t: "map_sum id td_year (to_dict example_isoformat patch_thread) = Inr None"
    by code_simp
  have j: "map_sum id (json_of_thread example_str_datetime)
        (to_dict example_isoformat patch_thread)
     = Inr patch_thread_json"
    by code_simp
  have y: "thread_year patch_thread_json = ''unknown''" by code_simp
  show ?thesis by (intro conjI p f l g d e t j y)
qed

text \<open>
  Claim C7, amended: the four formats are tried in their fixed order and the first one
  that parses gives the timestamp; when none parses the timestamp is left unset without
  an exception, and the record is still produced, carrying the year and month taken from
  the directories. The callers do not fall back to these fields. The first date and the
  year of a decision, and of the entry of a thread in the topics document, are those of
  the first of the earliest parsed dates of its messages, and are unset when no message
  has a parsed date; then the year-partitioning stage files the entry under \<open>unknown\<close>.
  Both are produced when the thread has a message and all parsed dates are naive, and
  neither changes with the directory fields of the messages, which only the copies of
  the messages in the entry carry.
\<close>

theorem parse_date_first_format_wins:
  "date_formats = [''%a, %d %b %Y %H:%M:%S %z'', ''%d %b %Y %H:%M:%S %z'',
                   ''%a, %d %b %Y %H:%M:%S'', ''%d %b %Y %H:%M:%S'']
   \<and> (date_str \<noteq> [] \<longrightarrow> i < length date_formats
      \<longrightarrow> strptime (strip (sub_trailing_comment date_str)) (date_formats ! i) = Some d
      \<longrightarrow> (\<forall>j<i. strptime (strip (sub_trailing_comment date_str)) (date_formats ! j) = None)
      \<longrightarrow> parse_date strptime date_str = Some d)
   \<and> ((\<forall>fmt\<in>set date_formats.
          strptime (strip (sub_trailing_comment (r_date raw))) fmt = None)
      \<longrightarrow> strip (r_subject raw) \<noteq> []
      \<longrightarrow> (\<exists>m. parse_mbox_file strptime (Mbox raw) = Some m \<and> m_date m = None
               \<and> m_year m = r_year_dir raw \<and> m_month m = r_month_dir raw))
   \<and> (thread_decision t = Inr dec
      \<longrightarrow> (parsed_dates t = [] \<longrightarrow> d_first_date dec = None \<and> d_year dec = None)
          \<and> (parsed_dates t \<noteq> []
             \<longrightarrow> (\<exists>e. first_earliest (parsed_dates t) e \<and> d_first_date dec = Some e
                      \<and> d_year dec = Some (dt_year e))))
   \<and> (to_dict isoformat t = Inr td
      \<longrightarrow> (parsed_dates t = [] \<longrightarrow> td_first_date td = None \<and> td_year td = None)
          \<and> (parsed_dates t \<noteq> []
             \<longrightarrow> (\<exists>e. first_earliest (parsed_dates t) e
                      \<and> td_first_date td = Some (isoformat e)
                      \<and> td_year td = Some (dt_year e))))
   \<and> (t_messages u \<noteq> [] \<longrightarrow> (\<forall>m\<in>set (t_messages u). m_date m = None)
      \<longrightarrow> (\<exists>dec. thread_decision u = Inr dec \<and> d_year dec = None \<and> d_first_date dec = None))
   \<and> ((\<forall>m\<in>set (t_messages u). m_date m = None)
      \<longrightarrow> (\<exists>td. to_dict isoformat u = Inr td \<and> td_year td = None \<and> td_first_date td = None
               \<and> thread_year (json_of_thread str_datetime td) = ''unknown''))
   \<and> (t_messages v \<noteq> [] \<longrightarrow> (\<forall>e\<in>set (parsed_dates v). dt_utcoffset e = None)
      \<longrightarrow> (\<exists>dec. thread_decision v = Inr dec) \<and> (\<exists>td. to_dict isoformat v = Inr td))
   \<and> thread_decision (relocate year_dir month_dir t) = thread_decision t
   \<and> to_dict isoformat (relocate year_dir month_dir t)
     = map_sum id
         (\<lambda>td. td\<lparr>td_messages := map (\<lambda>m. m\<lparr>m_year := year_dir m, m_month := month_dir m\<rparr>)
                                    (td_messages td)\<rparr>)
         (to_dict isoformat t)"
proof (intro conjI impI)
  show "date_formats = [''%a, %d %b %Y %H:%M:%S %z'', ''%d %b %Y %H:%M:%S %z'',
                   ''%a, %d %b %Y %H:%M:%S'', ''%d %b %Y %H:%M:%S'']"
    by (rule date_formats_def)
next
  assume "date_str \<noteq> []" and "i < length date_formats"
    and "strptime (strip (sub_trailing_comment date_str)) (date_formats ! i) = Some d"
    and "\<forall>j<i. strptime (strip (sub_trailing_comment date_str)) (date_formats ! j) = None"
  then show "parse_date strptime date_str = Some d"
    by (simp add: parse_date_def try_formats_first)
next
  assume "\<forall>fmt\<in>set date_formats. strptime (strip (sub_trailing_comment (r_date raw))) fmt = None"
    and "strip (r_subject raw) \<noteq> []"
  then show "\<exists>m. parse_mbox_file strptime (Mbox raw) = Some m \<and> m_date m = None
               \<and> m_year m = r_year_dir raw \<and> m_month m = r_month_dir raw"
    by (rule parse_mbox_file_undated)
next
  assume a: "thread_decision t = Inr dec"
  {
    assume "parsed_dates t = []"
    then show "d_first_date dec = None" and "d_year dec = None"
      using thread_decision_year [OF a] by simp_all
  }
  {
    assume "parsed_dates t \<noteq> []"
    then show "\<exists>e. first_earliest (parsed_dates t) e \<and> d_first_date dec = Some e
                      \<and> d_year dec = Some (dt_year e)"
      using thread_decision_year [OF a] by simp
  }
next
  assume a: "to_dict isoformat t = Inr td"
  {
    assume "parsed_dates t = []"
    then show "td_first_date td = None" and "td_year td = None"
      using to_dict_year [OF a] by simp_all
  }
  {
    assume "parsed_dates t \<noteq> []"
    then show "\<exists>e. first_earliest (parsed_dates t) e
                      \<and> td_first_date td = Some (isoformat e)
                      \<and> td_year td = Some (dt_year e)"
      using to_dict_year [OF a] by simp
  }
next
  assume "t_messages u \<noteq> []" and "\<forall>m\<in>set (t_messages u). m_date m = None"
  then show "\<exists>dec. thread_decision u = Inr dec \<and> d_year dec = None \<and> d_first_date dec = None"
    by (rule thread_decision_undated)
next
  assume "\<forall>m\<in>set (t_messages u). m_date m = None"
  then show "\<exists>td. to_dict isoformat u = Inr td \<and> td_year td = None \<and> td_first_date td = None
               \<and> thread_year (json_of_thread str_datetime td) = ''unknown''"
    by (rule to_dict_undated)
next
  assume a: "t_messages v \<noteq> []" and b: "\<forall>e\<in>set (parsed_dates v). dt_utcoffset e = None"
  show "\<exists>dec. thread_decision v = Inr dec" using a b by (rule thread_decision_naive)
  show "\<exists>td. to_dict isoformat v = Inr td" using b by (rule to_dict_naive)
next
  show "thread_decision (relocate year_dir month_dir t) = thread_decision t"
    by (rule thread_decision_relocate)
next
  show "to_dict isoformat (relocate year_dir month_dir t)
     = map_sum id
         (\<lambda>td. td\<lparr>td_messages := map (\<lambda>m. m\<lparr>m_year := year_dir m, m_month := month_dir m\<rparr>)
                                    (td_messages td)\<rparr>)
         (to_dict isoformat t)"
    by (rule to_dict_relocate)
qed


text \<open>
  The amended claim on the examples: a date with a trailing comment that only the fourth
  format parses; the date of the example files that no format parses; the thread with
  dates, whose messages lie in directory 2019/12 and whose earliest parsed date is of
  2020, so that the decision and the entry have the year 2020; and the patch thread,
  whose messages have no parsed date.
\<close>

theorem parse_date_first_format_wins_witness:
  "''6 Jan 2020 10:00:00 (CET)'' \<noteq> []
   \<and> (3::nat) < length date_formats
   \<and> strip (sub_trailing_comment ''6 Jan 2020 10:00:00 (CET)'') = ''6 Jan 2020 10:00:00''
   \<and> example_strptime ''6 Jan 2020 10:00:00'' (date_formats ! 0) = None
   \<and> example_strptime ''6 Jan 2020 10:00:00'' (date_formats ! 1) = None
   \<and> example_strptime ''6 Jan 2020 10:00:00'' (date_formats ! 2) = None
   \<and> example_strptime ''6 Jan 2020 10:00:00'' (date_formats ! 3)
     = Some \<lparr>dt_year = 2020, dt_wall = 63713901600000000, dt_utcoffset = None\<rparr>
   \<and> parse_date example_strptime ''6 Jan 2020 10:00:00 (CET)''
     = Some \<lparr>dt_year = 2020, dt_wall = 63713901600000000, dt_utcoffset = None\<rparr>
   \<and> list_all (\<lambda>fmt. example_strptime
                  (strip (sub_trailing_comment
                     (r_date (example_raw ''alice'' ''[PATCH] fix cast'' ''please review''))))
                  fmt = None) date_formats
   \<and> strip (r_subject (example_raw ''alice'' ''[PATCH] fix cast'' ''please review'')) \<noteq> []
   \<and> (\<exists>m. parse_mbox_file example_strptime
              (Mbox (example_raw ''alice'' ''[PATCH] fix cast'' ''please review'')) = Some m
          \<and> m_date m = None
          \<and> m_year m = r_year_dir (example_raw ''alice'' ''[PATCH] fix cast'' ''please review'')
          \<and> m_month m = r_month_dir (example_raw ''alice'' ''[PATCH] fix cast'' ''please review''))
   \<and> parsed_dates dated_thread = [example_date_2021, example_date_2020, example_date_2020]
   \<and> list_all (\<lambda>m. m_year m = ''2019'' \<and> m_month m = ''12'') (t_messages dated_thread)
   \<and> significant_threads dated_builder = [dated_thread]
   \<and> (\<exists>dec. thread_decision dated_thread = Inr dec
          \<and> d_first_date dec = Some example_date_2020 \<and> d_year dec = Some 2020
          \<and> (\<exists>e. first_earliest (parsed_dates dated_thread) e \<and> d_first_date dec = Some e
                 \<and> d_year dec = Some (dt_year e)))
   \<and> (\<exists>td. to_dict example_isoformat dated_thread = Inr td
          \<and> td_first_date td = Some ''2020-01-06T10:00:00'' \<and> td_year td = Some 2020
          \<and> thread_year (json_of_thread example_str_datetime td) = ''2020''
          \<and> (\<exists>e. first_earliest (parsed_dates dated_thread) e
                 \<and> td_first_date td = Some (example_isoformat e)
                 \<and> td_year td = Some (dt_year e)))
   \<and> parsed_dates patch_thread = []
   \<and> (\<exists>dec. thread_decision patch_thread = Inr dec
          \<and> d_first_date dec = None \<and> d_year dec = None)
   \<and> (\<exists>td. to_dict example_isoformat patch_thread = Inr td
          \<and> td_first_date td = None \<and> td_year td = None)
   \<and> t_messages patch_thread \<noteq> []
   \<and> list_all (\<lambda>m. m_date m = None) (t_messages patch_thread)
   \<and> (\<exists>dec. thread_decision patch_thread = Inr dec \<and> d_year dec = None
            \<and> d_first_date dec = None)
   \<and> (\<exists>td. to_dict example_isoformat patch_thread = Inr td \<and> td_year td = None
           \<and> td_first_date td = None
           \<and> thread_year (json_of_thread example_str_datetime td) = ''unknown'')
   \<and> t_messages dated_thread \<noteq> []
   \<and> list_all (\<lambda>e. dt_utcoffset e = None) (parsed_dates dated_thread)
   \<and> (\<exists>dec. thread_decision dated_thread = Inr dec)
   \<and> (\<exists>td. to_dict example_isoformat dated_thread = Inr td)
   \<and> thread_decision (relocate (\<lambda>m. ''2020'') (\<lambda>m. ''01'') dated_thread)
     = thread_decision dated_thread
   \<and> to_dict example_isoformat (relocate (\<lambda>m. ''2020'') (\<lambda>m. ''01'') dated_thread)
     = map_sum id
         (\<lambda>td. td\<lparr>td_messages := map (\<lambda>m. m\<lparr>m_year := ''2020'', m_month := ''01''\<rparr>)
                                    (td_messages td)\<rparr>)
         (to_dict example_isoformat dated_thread)"
proof -
  let ?s = "''6 Jan 2020 10:00:00 (CET)''"
  let ?d = "\<lparr>dt_year = 2020, dt_wall = 63713901600000000, dt_utcoffset = None\<rparr>"
  let ?raw = "example_raw ''alice'' ''[PATCH] fix cast'' ''please review''"
  have "case thread_decision dated_thread of
          Inl e \<Rightarrow> False
        | Inr dec \<Rightarrow> d_first_date dec = Some example_date_2020 \<and> d_year dec = Some 2020"
    by code_simp
  then obtain dec where dd: "thread_decision dated_thread = Inr dec"
    and dd1: "d_first_date dec = Some example_date_2020" and dd2: "d_year dec = Some 2020"
    by (cases "thread_decision dated_thread") auto
  have "case to_dict example_isoformat dated_thread of
          Inl e \<Rightarrow> False
        | Inr td \<Rightarrow> td_first_date td = Some ''2020-01-06T10:00:00'' \<and> td_year td = Some 2020
                    \<and> thread_year (json_of_thread example_str_datetime td) = ''2020''"
    by code_simp
  then obtain td where dt: "to_dict example_isoformat dated_thread = Inr td"
    and dt1: "td_first_date td = Some ''2020-01-06T10:00:00''" and dt2: "td_year td = Some 2020"
    and dt3: "thread_year (json_of_thread example_str_datetime td) = ''2020''"
    by (cases "to_dict example_isoformat dated_thread") auto
  have "case thread_decision patch_thread of Inl e \<Rightarrow> False | Inr dec \<Rightarrow> True"
    by code_simp
  then obtain pdec where pd: "thread_decision patch_thread = Inr pdec"
    by (cases "thread_decision patch_thread") auto
  have "case to_dict example_isoformat patch_thread of Inl e \<Rightarrow> False | Inr td \<Rightarrow> True"
    by code_simp
  then obtain ptd where pt: "to_dict example_isoformat patch_thread = Inr ptd"
    by (cases "to_dict example_isoformat patch_thread") auto
  note t = parse_date_first_format_wins [where date_str = ?s and i = 3
      and strptime = example_strptime and d = ?d and raw = ?raw
      and t = dated_thread and dec = dec and isoformat = example_isoformat and td = td
      and u = patch_thread and str_datetime = example_str_datetime and v = dated_thread
      and year_dir = "\<lambda>m. ''2020''" and month_dir = "\<lambda>m. ''01''"]
  note p = parse_date_first_format_wins [where t = patch_thread and dec = pdec
      and isoformat = example_isoformat and td = ptd]
  have h1: "?s \<noteq> []" by simp
  have h2: "(3::nat) < length date_formats" by (simp add: date_formats_def)
  have c: "strip (sub_trailing_comment ?s) = ''6 Jan 2020 10:00:00''" by code_simp
  have n0: "example_strptime ''6 Jan 2020 10:00:00'' (date_formats ! 0) = None" by code_simp
  have n1: "example_strptime ''6 Jan 2020 10:00:00'' (date_formats ! 1) = None" by code_simp
  have n2: "example_strptime ''6 Jan 2020 10:00:00'' (date_formats ! 2) = None" by code_simp
  have n3: "example_strptime ''6 Jan 2020 10:00:00'' (date_formats ! 3) = Some ?d" by code_simp
  have h3: "example_strptime (strip (sub_trailing_comment ?s)) (date_formats ! 3) = Some ?d"
    unfolding c by (rule n3)
  have h4: "\<forall>j<3. example_strptime (strip (sub_trailing_comment ?s)) (date_formats ! j) = None"
  proof (intro allI impI)
    fix j :: nat
    assume "j < 3"
    then have "j = 0 \<or> j = 1 \<or> j = 2" by arith
    then show "example_strptime (strip (sub_trailing_comment ?s)) (date_formats ! j) = None"
      unfolding c using n0 n1 n2 by (elim disjE) simp_all
  qed
  note c1 = t [THEN conjunct2, THEN conjunct1, THEN mp, THEN mp, THEN mp, THEN mp,
      OF h1 h2 h3 h4]
  have g1: "list_all (\<lambda>fmt. example_strptime (strip (sub_trailing_comment (r_date ?raw))) fmt
                = None) date_formats"
    by code_simp
  have g2: "strip (r_subject ?raw) \<noteq> []" by code_simp
  note c2 = t [THEN conjunct2, THEN conjunct2, THEN conjunct1, THEN mp, THEN mp,
      OF g1 [unfolded list_all_iff] g2]
  note r = t [THEN conjunct2, THEN conjunct2, THEN conjunct2]
  have e1: "parsed_dates dated_thread = [example_date_2021, example_date_2020, example_date_2020]"
    by code_simp
  then have e2: "parsed_dates dated_thread \<noteq> []" by simp
  have e3: "list_all (\<lambda>m. m_year m = ''2019'' \<and> m_month m = ''12'') (t_messages dated_thread)"
    by code_simp
  have e4: "significant_threads dated_builder = [dated_thread]" by code_simp
  note c3 = r [THEN conjunct1, THEN mp, OF dd, THEN conjunct2, THEN mp, OF e2]
  have c3': "\<exists>dec. thread_decision dated_thread = Inr dec
          \<and> d_first_date dec = Some example_date_2020 \<and> d_year dec = Some 2020
          \<and> (\<exists>e. first_earliest (parsed_dates dated_thread) e \<and> d_first_date dec = Some e
                 \<and> d_year dec = Some (dt_year e))"
    by (rule exI [of _ dec]) (intro conjI dd dd1 dd2 c3)
  note c4 = r [THEN conjunct2, THEN conjunct1, THEN mp, OF dt, THEN conjunct2, THEN mp, OF e2]
  have c4': "\<exists>td. to_dict example_isoformat dated_thread = Inr td
          \<and> td_first_date td = Some ''2020-01-06T10:00:00'' \<and> td_year td = Some 2020
          \<and> thread_year (json_of_thread example_str_datetime td) = ''2020''
          \<and> (\<exists>e. first_earliest (parsed_dates dated_thread) e
                 \<and> td_first_date td = Some (example_isoformat e)
                 \<and> td_year td = Some (dt_year e))"
    by (rule exI [of _ td]) (intro conjI dt dt1 dt2 dt3 c4)
  note q = p [THEN conjunct2, THEN conjunct2, THEN conjunct2]
  have f1: "parsed_dates patch_thread = []" by code_simp
  note c5 = q [THEN conjunct1, THEN mp, OF pd, THEN conjunct1, THEN mp, OF f1]
  have c5': "\<exists>dec. thread_decision patch_thread = Inr dec
          \<and> d_first_date dec = None \<and> d_year dec = None"
    by (rule exI [of _ pdec]) (intro conjI pd c5 [THEN conjunct1] c5 [THEN conjunct2])
  note c6 = q [THEN conjunct2, THEN conjunct1, THEN mp, OF pt, THEN conjunct1, THEN mp, OF f1]
  have c6': "\<exists>td. to_dict example_isoformat patch_thread = Inr td
          \<and> td_first_date td = None \<and> td_year td = None"
    by (rule exI [of _ ptd]) (intro conjI pt c6 [THEN conjunct1] c6 [THEN conjunct2])
  note r2 = r [THEN conjunct2, THEN conjunct2]
  have k1: "t_messages patch_thread \<noteq> []" by code_simp
  have k2: "list_all (\<lambda>m. m_date m = None) (t_messages patch_thread)" by code_simp
  note c7 = r2 [THEN conjunct1, THEN mp, THEN mp, OF k1 k2 [unfolded list_all_iff]]
  note c8 = r2 [THEN conjunct2, THEN conjunct1, THEN mp, OF k2 [unfolded list_all_iff]]
  note r3 = r2 [THEN conjunct2, THEN conjunct2]
  have v1: "t_messages dated_thread \<noteq> []" by code_simp
  have v2: "list_all (\<lambda>e. dt_utcoffset e = None) (parsed_dates dated_thread)" by code_simp
  note c9 = r3 [THEN conjunct1, THEN mp, THEN mp, OF v1 v2 [unfolded list_all_iff]]
  note c10 = r3 [THEN conjunct2, THEN conjunct1]
  note c11 = r3 [THEN conjunct2, THEN conjunct2]
  show ?thesis
    by (intro conjI h1 h2 c n0 n1 n2 n3 c1 g1 g2 c2 e1 e3 e4 c3' c4' f1 c5' c6' k1 k2 c7 c8
        v1 v2 c9 [THEN conjunct1] c9 [THEN conjunct2] c10 c11)
qed


subsection \<open>Contributors\<close>

lemma sum_increment: "sum_list (map snd (increment k c)) = Suc (sum_list (map snd c))"
  unfolding increment_def by (induction c) auto

lemma authors_analyze_email:
  "authors (analyze_email email a) = increment (lower (e_author_email email)) (authors a)"
  by (simp add: analyze_email_def Let_def split: prod.split)

lemma emails_analyze_email: "emails (analyze_email email a) = emails a"
  by (simp add: analyze_email_def Let_def split: prod.split)

lemma authors_fold_analyze:
  "authors (fold analyze_email es a)
   = fold (\<lambda>e. increment (lower (e_author_email e))) es (authors a)"
  by (induction es arbitrary: a) (simp_all add: authors_analyze_email)

lemma emails_fold_analyze: "emails (fold analyze_email es a) = emails a"
  by (induction es arbitrary: a) (simp_all add: emails_analyze_email)

lemma sum_fold_increment:
  "sum_list (map snd (fold (\<lambda>e. increment (g e)) es c)) = sum_list (map snd c) + length es"
  by (induction es arbitrary: c) (simp_all add: sum_increment)

lemma distinct_fold_increment:
  "distinct (map fst c) \<Longrightarrow> distinct (map fst (fold (\<lambda>e. increment (g e)) es c))"
  by (induction es arbitrary: c) (simp_all add: increment_def distinct_update)

lemma keys_fold_increment:
  "fst ` set (fold (\<lambda>e. increment (g e)) es c) = g ` set es \<union> fst ` set c"
  by (induction es arbitrary: c) (auto simp: increment_def dom_update)

lemma sum_insort_key:
  "sum_list (map f (insort_key k x xs)) = (f :: 'a \<Rightarrow> nat) x + sum_list (map f xs)"
  by (induction xs) simp_all

lemma sum_sort_key: "sum_list (map f (sort_key k xs)) = sum_list (map (f :: 'a \<Rightarrow> nat) xs)"
  by (induction xs) (simp_all add: sum_insort_key)

lemma sum_rev_sort_rev:
  "sum_list (map f (rev (sort_key k (rev xs)))) = sum_list (map (f :: 'a \<Rightarrow> nat) xs)"
proof -
  have "sum_list (map f (rev (sort_key k (rev xs)))) = sum_list (rev (map f (sort_key k (rev xs))))"
    by (simp add: rev_map)
  also have "\<dots> = sum_list (map f (sort_key k (rev xs)))" by (rule sum_list_rev)
  also have "\<dots> = sum_list (map f (rev xs))" by (rule sum_sort_key)
  also have "\<dots> = sum_list (rev (map f xs))" by (simp add: rev_map)
  also have "\<dots> = sum_list (map f xs)" by (rule sum_list_rev)
  finally show ?thesis .
qed

lemma sum_take_le: "sum_list (map f (take n xs)) \<le> sum_list (map (f :: 'a \<Rightarrow> nat) xs)"
proof -
  have "sum_list (map f xs) = sum_list (map f (take n xs)) + sum_list (map f (drop n xs))"
    by (metis append_take_drop_id map_append sum_list.append)
  then show ?thesis by simp
qed

text \<open>
  Claim C8: every record that parsed increments the count of exactly one contributor
  key, the lower-cased address of its author, by one; so after the analysis the counts of
  all contributors sum to the number of records, one count for each address. The summary
  lists the thirty largest counts, which sum to that number as long as there are at most
  thirty contributors.
\<close>

theorem contributor_counts_sum:
  "sum_list (map snd (authors (analyze_email email a))) = sum_list (map snd (authors a)) + 1
   \<and> sum_list (map snd (authors (analyze (load_all_emails parsed EmailAnalyzer))))
     = total_emails (analyze (load_all_emails parsed EmailAnalyzer))
   \<and> distinct (map fst (authors (analyze (load_all_emails parsed EmailAnalyzer))))
   \<and> fst ` set (authors (analyze (load_all_emails parsed EmailAnalyzer)))
     = (\<lambda>e. lower (e_author_email e)) ` set (emails (analyze (load_all_emails parsed EmailAnalyzer)))
   \<and> sum_list (map snd (top_contributors (analyze (load_all_emails parsed EmailAnalyzer))))
     \<le> total_emails (analyze (load_all_emails parsed EmailAnalyzer))
   \<and> (total_contributors (analyze (load_all_emails parsed EmailAnalyzer)) \<le> 30 \<longrightarrow>
        sum_list (map snd (top_contributors (analyze (load_all_emails parsed EmailAnalyzer))))
        = total_emails (analyze (load_all_emails parsed EmailAnalyzer)))"
proof -
  let ?a = "load_all_emails parsed EmailAnalyzer"
  let ?es = "List.map_filter id parsed"
  have e: "emails ?a = ?es" and a0: "authors ?a = []"
    by (simp_all add: load_all_emails_def EmailAnalyzer_def)
  have au: "authors (analyze ?a) = fold (\<lambda>e. increment (lower (e_author_email e))) ?es []"
    unfolding analyze_def authors_fold_analyze e a0 ..
  have em: "emails (analyze ?a) = ?es"
    unfolding analyze_def emails_fold_analyze e ..
  have total: "sum_list (map snd (authors (analyze ?a))) = total_emails (analyze ?a)"
    unfolding au total_emails_def em by (simp add: sum_fold_increment)
  have top: "sum_list (map snd (top_contributors (analyze ?a)))
      \<le> sum_list (map snd (authors (analyze ?a)))"
    unfolding top_contributors_def get_top_contributors_def
    by (rule order_trans [OF sum_take_le]) (simp add: sum_rev_sort_rev)
  show ?thesis
  proof (intro conjI impI)
    show "sum_list (map snd (authors (analyze_email email a))) = sum_list (map snd (authors a)) + 1"
      by (simp add: authors_analyze_email sum_increment)
    show "sum_list (map snd (authors (analyze ?a))) = total_emails (analyze ?a)" by (rule total)
    show "distinct (map fst (authors (analyze ?a)))"
      unfolding au by (rule distinct_fold_increment) simp
    show "fst ` set (authors (analyze ?a)) = (\<lambda>e. lower (e_author_email e)) ` set (emails (analyze ?a))"
      unfolding au em by (simp add: keys_fold_increment)
    show "sum_list (map snd (top_contributors (analyze ?a))) \<le> total_emails (analyze ?a)"
      using top total by simp
    assume "total_contributors (analyze ?a) \<le> 30"
    then have "take 30 (rev (sort_key snd (rev (authors (analyze ?a)))))
        = rev (sort_key snd (rev (authors (analyze ?a))))"
      by (simp add: total_contributors_def)
    then have "sum_list (map snd (top_contributors (analyze ?a)))
        = sum_list (map snd (authors (analyze ?a)))"
      unfolding top_contributors_def get_top_contributors_def by (simp add: sum_rev_sort_rev)
    with total show "sum_list (map snd (top_contributors (analyze ?a))) = total_emails (analyze ?a)"
      by simp
  qed
qed

text \<open>
  Claim C8 on three records and a file that did not parse: two addresses that differ in
  case count as one contributor.
\<close>

theorem contributor_counts_sum_witness:
  "authors (analyze (load_all_emails
       [Some (example_email ''Alice@Example.org'' ''[PATCH] fix cast''), None,
        Some (example_email ''bob@example.org'' ''Re: [PATCH] fix cast''),
        Some (example_email ''alice@example.org'' ''sparse warning?'')] EmailAnalyzer))
     = [(''alice@example.org'', 2), (''bob@example.org'', 1)]
   \<and> total_emails (analyze (load_all_emails
       [Some (example_email ''Alice@Example.org'' ''[PATCH] fix cast''), None,
        Some (example_email ''bob@example.org'' ''Re: [PATCH] fix cast''),
        Some (example_email ''alice@example.org'' ''sparse warning?'')] EmailAnalyzer)) = 3
   \<and> total_contributors (analyze (load_all_emails
       [Some (example_email ''Alice@Example.org'' ''[PATCH] fix cast''), None,
        Some (example_email ''bob@example.org'' ''Re: [PATCH] fix cast''),
        Some (example_email ''alice@example.org'' ''sparse warning?'')] EmailAnalyzer)) \<le> 30
   \<and> sum_list (map snd (top_contributors (analyze (load_all_emails
       [Some (example_email ''Alice@Example.org'' ''[PATCH] fix cast''), None,
        Some (example_email ''bob@example.org'' ''Re: [PATCH] fix cast''),
        Some (example_email ''alice@example.org'' ''sparse warning?'')] EmailAnalyzer))))
     = total_emails (analyze (load_all_emails
       [Some (example_email ''Alice@Example.org'' ''[PATCH] fix cast''), None,
        Some (example_email ''bob@example.org'' ''Re: [PATCH] fix cast''),
        Some (example_email ''alice@example.org'' ''sparse warning?'')] EmailAnalyzer))"
proof -
  let ?parsed = "[Some (example_email ''Alice@Example.org'' ''[PATCH] fix cast''), None,
        Some (example_email ''bob@example.org'' ''Re: [PATCH] fix cast''),
        Some (example_email ''alice@example.org'' ''sparse warning?'')]"
  let ?a = "analyze (load_all_emails ?parsed EmailAnalyzer)"
  have a: "authors ?a = [(''alice@example.org'', 2), (''bob@example.org'', 1)]"
    by code_simp
  have n: "total_emails ?a = 3" by code_simp
  have c: "total_contributors ?a \<le> 30" unfolding total_contributors_def a by simp
  note t = contributor_counts_sum [where parsed = ?parsed]
  note t6 = t [THEN conjunct2, THEN conjunct2, THEN conjunct2, THEN conjunct2, THEN conjunct2,
      THEN mp, OF c]
  show ?thesis by (intro conjI a n c t6)
qed

subsection \<open>Year partition\<close>

lemma organize_category_fold:
  "organize_category item st = fold (\<lambda>(c, t). organize_thread c t) (map (Pair (fst item)) (snd item)) st"
  by (simp add: organize_category_def fold_map comp_def)

lemma fold_organize_category:
  "fold organize_category items st = fold (\<lambda>(c, t). organize_thread c t) (listing items) st"
proof (induction items arbitrary: st)
  case Nil
  show ?case by (simp add: listing_def)
next
  case (Cons item items)
  let ?f = "\<lambda>(c, t). organize_thread c t"
  have l: "listing (item # items) = map (Pair (fst item)) (snd item) @ listing items"
    by (simp add: listing_def split: prod.split)
  have "fold organize_category (item # items) st
      = fold organize_category items (organize_category item st)" by simp
  also have "\<dots> = fold ?f (listing items) (organize_category item st)" by (rule Cons.IH)
  also have "\<dots> = fold ?f (listing items) (fold ?f (map (Pair (fst item)) (snd item)) st)"
    by (simp only: organize_category_fold)
  also have "\<dots> = fold ?f (listing (item # items)) st" by (simp add: l)
  finally show ?case .
qed

text \<open>Filing one more thread puts it somewhere among the threads filed before.\<close>

lemma filed_update:
  "\<exists>pre post.
     filed data = pre @ post
     \<and> filed (AList.update year
          ((case map_of data year of None \<Rightarrow> new_year_info | Some i \<Rightarrow> i)
             \<lparr>y_threads := y_threads (case map_of data year of None \<Rightarrow> new_year_info | Some i \<Rightarrow> i) @ [yt],
              y_total_threads := a, y_total_messages := b, y_categories := c\<rparr>) data)
       = pre @ [yt] @ post"
proof (induction data)
  case Nil
  show ?case by (simp add: filed_def new_year_info_def)
next
  case (Cons p data)
  obtain k i where p: "p = (k, i)" by (cases p)
  show ?case
  proof (cases "k = year")
    case True
    have "filed (p # data) = y_threads i @ filed data"
      and "filed (AList.update year
          ((case map_of (p # data) year of None \<Rightarrow> new_year_info | Some i \<Rightarrow> i)
             \<lparr>y_threads := y_threads (case map_of (p # data) year of None \<Rightarrow> new_year_info | Some i \<Rightarrow> i) @ [yt],
              y_total_threads := a, y_total_messages := b, y_categories := c\<rparr>) (p # data))
         = y_threads i @ [yt] @ filed data"
      using True by (simp_all add: p filed_def)
    then show ?thesis by blast
  next
    case False
    from Cons.IH obtain pre post where 1: "filed data = pre @ post"
      and 2: "filed (AList.update year
          ((case map_of data year of None \<Rightarrow> new_year_info | Some i \<Rightarrow> i)
             \<lparr>y_threads := y_threads (case map_of data year of None \<Rightarrow> new_year_info | Some i \<Rightarrow> i) @ [yt],
              y_total_threads := a, y_total_messages := b, y_categories := c\<rparr>) data)
         = pre @ [yt] @ post" by blast
    have "filed (p # data) = (y_threads i @ pre) @ post"
      using 1 by (simp add: p filed_def)
    moreover have "filed (AList.update year
          ((case map_of (p # data) year of None \<Rightarrow> new_year_info | Some i \<Rightarrow> i)
             \<lparr>y_threads := y_threads (case map_of (p # data) year of None \<Rightarrow> new_year_info | Some i \<Rightarrow> i) @ [yt],
              y_total_threads := a, y_total_messages := b, y_categories := c\<rparr>) (p # data))
         = (y_threads i @ pre) @ [yt] @ post"
      using False 2 by (simp add: p filed_def)
    ultimately show ?thesis by blast
  qed
qed

lemma find_snoc:
  "List.find P (xs @ [x]) = (case List.find P xs of Some y \<Rightarrow> Some y | None \<Rightarrow> if P x then Some x else None)"
  by (induction xs) auto

lemma organized_step:
  assumes inv: "organized xs st"
  shows "organized (xs @ [(c, t)]) (organize_thread c t st)"
proof (cases "dedup_key t \<in> processed_threads st")
  case True
  then have st: "organize_thread c t st = st" by (simp add: organize_thread_def)
  have d: "\<forall>yt\<in>set (filed (yearly_data st)).
            List.find (\<lambda>(c, t). dedup_key t = dedup_key (yt_thread yt)) (xs @ [(c, t)])
            = Some (primary_category yt, yt_thread yt)"
    using inv by (simp add: organized_def find_snoc)
  have a: "processed_threads st = (\<lambda>(c, t). dedup_key t) ` set (xs @ [(c, t)])"
    using inv True unfolding organized_def by auto
  show ?thesis unfolding st organized_def
    using inv a d unfolding organized_def by blast
next
  case False
  let ?data = "yearly_data st"
  let ?year = "thread_year t"
  let ?info = "case map_of ?data ?year of None \<Rightarrow> new_year_info | Some i \<Rightarrow> i"
  let ?yt = "\<lparr>primary_category = c, yt_thread = t\<rparr>"
  let ?count = "case jt_message_count t of Some n \<Rightarrow> n
                | None \<Rightarrow> int (length (case jt_messages t of Some ms \<Rightarrow> ms | None \<Rightarrow> []))"
  let ?info' = "?info\<lparr>y_threads := y_threads ?info @ [?yt],
                      y_total_threads := y_total_threads ?info + 1,
                      y_total_messages := y_total_messages ?info + ?count,
                      y_categories := increment c (y_categories ?info)\<rparr>"
  let ?data' = "AList.update ?year ?info' ?data"
  let ?key = "\<lambda>yt. dedup_key (yt_thread yt)"
  have st: "organize_thread c t st
      = \<lparr>yearly_data = ?data', processed_threads = insert (dedup_key t) (processed_threads st)\<rparr>"
    using False by (simp add: organize_thread_def Let_def)
  from filed_update [where data = ?data and year = ?year and yt = ?yt
      and a = "y_total_threads ?info + 1" and b = "y_total_messages ?info + ?count"
      and c = "increment c (y_categories ?info)"]
  obtain pre post where f: "filed ?data = pre @ post" and f': "filed ?data' = pre @ [?yt] @ post"
    by blast
  from inv have p: "processed_threads st = (\<lambda>(c, t). dedup_key t) ` set xs"
    and k: "?key ` set (filed ?data) = processed_threads st"
    and di: "distinct (map ?key (filed ?data))"
    and fi: "\<forall>yt\<in>set (filed ?data).
            List.find (\<lambda>(c, t). dedup_key t = dedup_key (yt_thread yt)) xs
            = Some (primary_category yt, yt_thread yt)"
    and ye: "\<forall>(year, info)\<in>set ?data. \<forall>yt\<in>set (y_threads info). year = thread_year (yt_thread yt)"
    and dy: "distinct (map fst ?data)"
    unfolding organized_def by blast+
  have new: "dedup_key t \<notin> ?key ` set (filed ?data)" using False k by simp
  have 1: "insert (dedup_key t) (processed_threads st) = (\<lambda>(c, t). dedup_key t) ` set (xs @ [(c, t)])"
    using p by auto
  have 2: "?key ` set (filed ?data') = insert (dedup_key t) (processed_threads st)"
    using k unfolding f f' by auto
  have 3: "distinct (map ?key (filed ?data'))"
    using di new unfolding f f' by auto
  have nf: "List.find (\<lambda>(c', t'). dedup_key t' = dedup_key t) xs = None"
    using False p by (force simp: find_None_iff)
  have 4: "\<forall>yt\<in>set (filed ?data').
            List.find (\<lambda>(c, t). dedup_key t = dedup_key (yt_thread yt)) (xs @ [(c, t)])
            = Some (primary_category yt, yt_thread yt)"
  proof
    fix yt assume "yt \<in> set (filed ?data')"
    then have "yt = ?yt \<or> yt \<in> set (filed ?data)" unfolding f f' by auto
    then show "List.find (\<lambda>(c, t). dedup_key t = dedup_key (yt_thread yt)) (xs @ [(c, t)])
            = Some (primary_category yt, yt_thread yt)"
    proof
      assume "yt = ?yt"
      then show ?thesis using nf by (simp add: find_snoc)
    next
      assume "yt \<in> set (filed ?data)"
      with fi show ?thesis by (simp add: find_snoc)
    qed
  qed
  have old: "\<forall>yt\<in>set (y_threads ?info). ?year = thread_year (yt_thread yt)"
  proof (cases "map_of ?data ?year")
    case None
    then show ?thesis by (simp add: new_year_info_def)
  next
    case (Some i)
    then have "(?year, i) \<in> set ?data" by (rule map_of_SomeD)
    with ye Some show ?thesis by auto
  qed
  have 5: "\<forall>(year, info)\<in>set ?data'. \<forall>yt\<in>set (y_threads info). year = thread_year (yt_thread yt)"
  proof (intro ballI, clarify)
    fix year info yt
    assume "(year, info) \<in> set ?data'" and yt: "yt \<in> set (y_threads info)"
    then have "(year, info) = (?year, ?info') \<or> (year, info) \<in> set ?data"
      using set_update_subset by fastforce
    then show "year = thread_year (yt_thread yt)"
    proof
      assume "(year, info) = (?year, ?info')"
      with yt old show ?thesis by auto
    next
      assume "(year, info) \<in> set ?data"
      with ye yt show ?thesis by auto
    qed
  qed
  have 6: "distinct (map fst ?data')" using dy by (simp add: distinct_update)
  show ?thesis unfolding st organized_def
    using 1 2 3 4 5 6 by simp
qed

lemma organized_fold:
  "organized [] st \<Longrightarrow> organized xs (fold (\<lambda>(c, t). organize_thread c t) xs st)"
proof (induction xs rule: rev_induct)
  case Nil
  then show ?case by simp
next
  case (snoc x xs)
  obtain c t where x: "x = (c, t)" by (cases x)
  from snoc have "organized xs (fold (\<lambda>(c, t). organize_thread c t) xs st)" by simp
  then have "organized (xs @ [(c, t)]) (organize_thread c t (fold (\<lambda>(c, t). organize_thread c t) xs st))"
    by (rule organized_step)
  then show ?case by (simp add: x)
qed

lemma organized_organize_threads: "organized (listing items) (organize_threads items)"
  unfolding organize_threads_def fold_organize_category
  by (rule organized_fold) (simp add: organized_def filed_def)

lemma sort_year_threads_mset: "sort_year_threads ts = Inr ts' \<Longrightarrow> mset ts' = mset ts"
  by (auto simp: sort_year_threads_def split: if_splits)

lemma filed_Cons: "filed ((year, info) # data) = y_threads info @ filed data"
  by (simp add: filed_def)

lemma save_years_mset:
  "save_years data = (files, err) \<Longrightarrow>
   mset (concat (map f_threads files)) \<subseteq># mset (filed data)
   \<and> (err = None \<longrightarrow> mset (concat (map f_threads files)) = mset (filed data))
   \<and> prefix (map f_year files) (map fst data)"
proof (induction data arbitrary: files err)
  case Nil
  then show ?case by (simp add: filed_def)
next
  case (Cons p data)
  obtain year info where p: "p = (year, info)" by (cases p)
  show ?case
  proof (cases "sort_year_threads (y_threads info)")
    case (Inl e)
    with Cons.prems have "files = []" and "err = Some e" by (simp_all add: p)
    then show ?thesis by simp
  next
    case (Inr ts)
    obtain files' err' where r: "save_years data = (files', err')" by (cases "save_years data")
    from Cons.prems Inr r have files: "files = \<lparr>f_year = year, f_total_threads = y_total_threads info,
               f_total_messages = y_total_messages info,
               f_categories = y_categories info, f_threads = ts\<rparr> # files'" and err: "err = err'"
      by (simp_all add: p)
    from Cons.IH [OF r] have 1: "mset (concat (map f_threads files')) \<subseteq># mset (filed data)"
      and 2: "err' = None \<longrightarrow> mset (concat (map f_threads files')) = mset (filed data)"
      and 3: "prefix (map f_year files') (map fst data)" by blast+
    from Inr have ts: "mset ts = mset (y_threads info)" by (rule sort_year_threads_mset)
    show ?thesis
      using 1 2 3 ts by (simp add: files err p filed_Cons)
  qed
qed

lemma mset_filed: "mset xs = mset ys \<Longrightarrow> mset (filed xs) = mset (filed ys)"
proof -
  assume a: "mset xs = mset ys"
  have "\<And>zs. mset (filed zs) = sum_mset (image_mset (\<lambda>(year, info). mset (y_threads info)) (mset zs))"
  proof -
    fix zs :: "(string \<times> year_info) list"
    show "mset (filed zs) = sum_mset (image_mset (\<lambda>(year, info). mset (y_threads info)) (mset zs))"
      by (induction zs) (auto simp: filed_def)
  qed
  with a show ?thesis by simp
qed

lemma distinct_map_submset:
  assumes "mset ys \<subseteq># mset xs" and "distinct (map g xs)"
  shows "distinct (map g ys)"
proof -
  from assms(1) obtain M where "mset xs = mset ys + M"
    by (auto simp: mset_subset_eq_exists_conv)
  moreover obtain zs where "M = mset zs" by (metis ex_mset)
  ultimately have "mset xs = mset (ys @ zs)" by simp
  then have "mset (map g xs) = mset (map g (ys @ zs))" by (simp only: mset_map)
  with assms(2) have "distinct (map g (ys @ zs))" by (metis mset_eq_imp_distinct_iff)
  then show ?thesis by simp
qed

lemma prefix_distinct: "prefix xs ys \<Longrightarrow> distinct ys \<Longrightarrow> distinct xs"
  by (auto simp: prefix_def)

text \<open>
  Claim C10: across all year buckets, and across all year files written from them, every
  deduplication key (the normalized subject of a thread, or its raw subject when that is
  missing) occurs at most once; the keys filed are the keys listed; and the thread filed
  for a key is the first thread listed with that key, with the category it is listed
  under as its primary category. Each bucket holds the threads of its year, and each year
  has one bucket and one file.
\<close>

theorem organize_by_year_first_occurrence:
  "distinct (map (\<lambda>yt. dedup_key (yt_thread yt)) (filed (yearly_data (organize_threads items))))
   \<and> (\<lambda>yt. dedup_key (yt_thread yt)) ` set (filed (yearly_data (organize_threads items)))
     = (\<lambda>(c, t). dedup_key t) ` set (listing items)
   \<and> (\<forall>yt\<in>set (filed (yearly_data (organize_threads items))).
         List.find (\<lambda>(c, t). dedup_key t = dedup_key (yt_thread yt)) (listing items)
         = Some (primary_category yt, yt_thread yt))
   \<and> (\<forall>(year, info)\<in>set (yearly_data (organize_threads items)). \<forall>yt\<in>set (y_threads info).
         year = thread_year (yt_thread yt))
   \<and> distinct (map fst (yearly_data (organize_threads items)))
   \<and> (organize_by_year items = (files, err) \<longrightarrow>
        distinct (map f_year files)
        \<and> distinct (map (\<lambda>yt. dedup_key (yt_thread yt)) (concat (map f_threads files)))
        \<and> set (concat (map f_threads files)) \<subseteq> set (filed (yearly_data (organize_threads items)))
        \<and> (err = None \<longrightarrow>
             set (concat (map f_threads files))
             = set (filed (yearly_data (organize_threads items)))))"
proof -
  let ?data = "yearly_data (organize_threads items)"
  let ?key = "\<lambda>yt. dedup_key (yt_thread yt)"
  note inv = organized_organize_threads [of items, unfolded organized_def]
  from inv have 1: "distinct (map ?key (filed ?data))" by blast
  from inv have 2: "?key ` set (filed ?data) = (\<lambda>(c, t). dedup_key t) ` set (listing items)"
    by simp
  from inv have 3: "\<forall>yt\<in>set (filed ?data).
         List.find (\<lambda>(c, t). dedup_key t = dedup_key (yt_thread yt)) (listing items)
         = Some (primary_category yt, yt_thread yt)" by blast
  from inv have 4: "\<forall>(year, info)\<in>set ?data. \<forall>yt\<in>set (y_threads info).
         year = thread_year (yt_thread yt)" by blast
  from inv have 5: "distinct (map fst ?data)" by blast
  have 6: "distinct (map f_year files)
        \<and> distinct (map ?key (concat (map f_threads files)))
        \<and> set (concat (map f_threads files)) \<subseteq> set (filed ?data)
        \<and> (err = None \<longrightarrow> set (concat (map f_threads files)) = set (filed ?data))"
    if "organize_by_year items = (files, err)"
  proof -
    let ?sorted = "sort_key fst ?data"
    from that have "save_years ?sorted = (files, err)" by (simp add: organize_by_year_def)
    from save_years_mset [OF this]
    have a: "mset (concat (map f_threads files)) \<subseteq># mset (filed ?sorted)"
      and b: "err = None \<longrightarrow> mset (concat (map f_threads files)) = mset (filed ?sorted)"
      and c: "prefix (map f_year files) (map fst ?sorted)" by blast+
    have m: "mset (filed ?sorted) = mset (filed ?data)" by (rule mset_filed) simp
    have "mset (map fst ?sorted) = mset (map fst ?data)" by simp
    then have "distinct (map fst ?sorted)" using 5 by (metis mset_eq_imp_distinct_iff)
    with c have d1: "distinct (map f_year files)" by (rule prefix_distinct)
    from a have a': "mset (concat (map f_threads files)) \<subseteq># mset (filed ?data)"
      by (simp only: m)
    then have d2: "distinct (map ?key (concat (map f_threads files)))"
      using 1 by (rule distinct_map_submset)
    from a' have d3: "set (concat (map f_threads files)) \<subseteq> set (filed ?data)"
      by (metis set_mset_mono set_mset_mset)
    from b have d4: "err = None \<longrightarrow> set (concat (map f_threads files)) = set (filed ?data)"
      unfolding m by (metis mset_eq_setD)
    from d1 d2 d3 d4 show ?thesis by (intro conjI)
  qed
  from 1 2 3 4 5 6 show ?thesis by (intro conjI impI) blast+
qed

text \<open>
  Claim C10 on the example: the second listing of \<open>fix cast\<close> is skipped, and the thread
  stays in the bucket of 2020 with the category it was first listed under.
\<close>

theorem organize_by_year_first_occurrence_witness:
  "map (\<lambda>(c, t). (c, dedup_key t)) (listing example_topics)
     = [(''type_system'', ''fix cast''), (''type_system'', ''endian warning''),
        (''rfc_proposals'', ''context tracking''), (''rfc_proposals'', ''fix cast'')]
   \<and> map (\<lambda>(year, info). (year, map (\<lambda>yt. (primary_category yt, dedup_key (yt_thread yt)))
                                   (y_threads info)))
        (yearly_data (organize_threads example_topics))
     = [(''2020'', [(''type_system'', ''fix cast'')]),
        (''2019'', [(''type_system'', ''endian warning'')]),
        (''unknown'', [(''rfc_proposals'', ''context tracking'')])]
   \<and> distinct (map (\<lambda>yt. dedup_key (yt_thread yt))
                 (filed (yearly_data (organize_threads example_topics))))
   \<and> list_all (\<lambda>yt. List.find (\<lambda>(c, t). dedup_key t = dedup_key (yt_thread yt))
                       (listing example_topics)
                     = Some (primary_category yt, yt_thread yt))
        (filed (yearly_data (organize_threads example_topics)))
   \<and> (\<exists>files err. organize_by_year example_topics = (files, err)
          \<and> err = None
          \<and> map f_year files = [''2019'', ''2020'', ''unknown'']
          \<and> distinct (map f_year files)
          \<and> distinct (map (\<lambda>yt. dedup_key (yt_thread yt)) (concat (map f_threads files)))
          \<and> set (concat (map f_threads files))
            = set (filed (yearly_data (organize_threads example_topics))))"
proof -
  have l: "map (\<lambda>(c, t). (c, dedup_key t)) (listing example_topics)
     = [(''type_system'', ''fix cast''), (''type_system'', ''endian warning''),
        (''rfc_proposals'', ''context tracking''), (''rfc_proposals'', ''fix cast'')]"
    by code_simp
  have y: "map (\<lambda>(year, info). (year, map (\<lambda>yt. (primary_category yt, dedup_key (yt_thread yt)))
                                   (y_threads info)))
        (yearly_data (organize_threads example_topics))
     = [(''2020'', [(''type_system'', ''fix cast'')]),
        (''2019'', [(''type_system'', ''endian warning'')]),
        (''unknown'', [(''rfc_proposals'', ''context tracking'')])]"
    by code_simp
  have "case organize_by_year example_topics of
          (files, err) \<Rightarrow> err = None \<and> map f_year files = [''2019'', ''2020'', ''unknown'']"
    by code_simp
  then obtain files err where o: "organize_by_year example_topics = (files, err)"
    and e: "err = None" and f: "map f_year files = [''2019'', ''2020'', ''unknown'']"
    by (cases "organize_by_year example_topics") auto
  note t = organize_by_year_first_occurrence [where items = example_topics
      and files = files and err = err]
  note t1 = t [THEN conjunct1]
  note t3 = t [THEN conjunct2, THEN conjunct2, THEN conjunct1, folded list_all_iff]
  note t6 = t [THEN conjunct2, THEN conjunct2, THEN conjunct2, THEN conjunct2, THEN conjunct2,
      THEN mp, OF o]
  note t6a = t6 [THEN conjunct1]
  note t6b = t6 [THEN conjunct2, THEN conjunct1]
  note t6d = t6 [THEN conjunct2, THEN conjunct2, THEN conjunct2, THEN mp, OF e]
  have x: "\<exists>files err. organize_by_year example_topics = (files, err)
          \<and> err = None
          \<and> map f_year files = [''2019'', ''2020'', ''unknown'']
          \<and> distinct (map f_year files)
          \<and> distinct (map (\<lambda>yt. dedup_key (yt_thread yt)) (concat (map f_threads files)))
          \<and> set (concat (map f_threads files))
            = set (filed (yearly_data (organize_threads example_topics)))"
    by (rule exI [of _ files], rule exI [of _ err]) (intro conjI o e f t6a t6b t6d)
  show ?thesis by (intro conjI l y t1 t3 x)
qed

end
